theory Spec2Isabelle
  imports Main
begin

section \<open>Strings and characters\<close>

text \<open>
  A JavaScript string is modelled as a \<open>string\<close>: a list of code units. The code units
  of the model are the 256 values of \<open>char\<close>, read as the code units U+0000 to U+00FF.
\<close>

definition code_unit :: "char \<Rightarrow> nat" where
  "code_unit c = of_char c"

text \<open>
  \<open>Canonicalize\<close> of the regular expression semantics with the \<open>i\<close> flag and without
  the \<open>u\<close> flag: the code unit of the upper-case form when that is a single code unit.
  Below U+0100 this moves a-z and the accented lower-case letters (U+00E0 to U+00FE
  without the division sign) down by 32; the upper-case forms of U+00B5 and U+00FF lie
  outside the model and are met by no other code unit of it.
\<close>

definition canonicalize :: "char \<Rightarrow> char" where
  "canonicalize c =
     (let n = code_unit c
      in if (97 \<le> n \<and> n \<le> 122) \<or> (224 \<le> n \<and> n \<le> 254 \<and> n \<noteq> 247)
         then char_of (n - 32) else c)"

text \<open>\<open>s.startsWith(p)\<close>\<close>

fun startsWith :: "string \<Rightarrow> string \<Rightarrow> bool" where
  "startsWith s [] = True"
| "startsWith [] (p # ps) = False"
| "startsWith (c # cs) (p # ps) = (c = p \<and> startsWith cs ps)"

text \<open>\<open>s.includes(p)\<close>: \<open>p\<close> occurs in \<open>s\<close> at some index.\<close>

fun includes_str :: "string \<Rightarrow> string \<Rightarrow> bool" where
  "includes_str [] p = (p = [])"
| "includes_str (c # cs) p = (startsWith (c # cs) p \<or> includes_str cs p)"

text \<open>\<open>xs.join(sep)\<close>\<close>

fun join :: "string list \<Rightarrow> string \<Rightarrow> string" where
  "join [] sep = []"
| "join [x] sep = x"
| "join (x # y # ys) sep = x @ sep @ join (y # ys) sep"

text \<open>\<open>s.split('\n')\<close>: the pieces between line feeds; the empty string gives one empty piece.\<close>

fun split_lines :: "string \<Rightarrow> string list" where
  "split_lines [] = [[]]"
| "split_lines (c # cs) =
     (if c = CHR 0x0A then [] # split_lines cs
      else (case split_lines cs of
              [] \<Rightarrow> [[c]]
            | l # ls \<Rightarrow> (c # l) # ls))"

section \<open>Regular expressions\<close>

text \<open>
  The patterns the code uses are values of the run-time's \<open>RegExp\<close>. The model holds the
  pattern as a syntax tree and matches it by backtracking, as the language defines it: the
  results of a match attempt are listed in the order in which backtracking tries them, so
  the head of the list is the match the run-time reports. The flags \<open>g\<close>, \<open>y\<close>, \<open>m\<close>,
  \<open>s\<close> and \<open>u\<close> are not modelled: a pattern is stateless, \<open>^\<close> and \<open>$\<close> are the ends
  of the input, and \<open>.\<close> stops at a line terminator. The captures of a group inside a
  repetition are not cleared between the iterations; the one pattern whose captures the
  code reads has no group inside a repetition.
\<close>

datatype atom = Ch char | Dot | Digit | Space

datatype regex =
    Eps
  | Atom atom
  | Bol
  | Eol
  | Seq regex regex
  | Alt regex regex
  | Group nat regex
  | Star bool regex

text \<open>A pattern object: the tree and the \<open>ignoreCase\<close> flag.\<close>

datatype regexp = RegExp (source: regex) (ignoreCase: bool)

fun atom_ok :: "bool \<Rightarrow> atom \<Rightarrow> char \<Rightarrow> bool" where
  "atom_ok ic (Ch c) x = (if ic then canonicalize x = canonicalize c else x = c)"
| "atom_ok ic Dot x = (code_unit x \<noteq> 10 \<and> code_unit x \<noteq> 13)"
| "atom_ok ic Digit x = (48 \<le> code_unit x \<and> code_unit x \<le> 57)"
| "atom_ok ic Space x = (code_unit x \<in> {9, 10, 11, 12, 13, 32, 160})"

text \<open>
  A matcher state: whether the position is the start of the input, the input that is
  left, and the captures so far (the latest first).
\<close>

type_synonym mstate = "bool \<times> string \<times> (nat \<times> string) list"

text \<open>
  \<open>Star greedy r\<close> repeats \<open>r\<close>; an iteration that consumes nothing is rejected, as the
  language's repeat matcher does. A greedy repetition tries another iteration first, a
  lazy one tries to stop first.
\<close>

function (sequential) run :: "bool \<Rightarrow> regex \<Rightarrow> mstate \<Rightarrow> mstate list" where
  "run ic Eps st = [st]"
| "run ic (Atom a) (b, s, c) =
     (case s of
        [] \<Rightarrow> []
      | x # xs \<Rightarrow> if atom_ok ic a x then [(False, xs, c)] else [])"
| "run ic Bol (b, s, c) = (if b then [(b, s, c)] else [])"
| "run ic Eol (b, s, c) = (if s = [] then [(b, s, c)] else [])"
| "run ic (Seq r1 r2) st = concat (map (run ic r2) (run ic r1 st))"
| "run ic (Alt r1 r2) st = run ic r1 st @ run ic r2 st"
| "run ic (Group n r) (b, s, c) =
     map (\<lambda>st'. (fst st', fst (snd st'),
                  (n, take (length s - length (fst (snd st'))) s) # snd (snd st')))
         (run ic r (b, s, c))"
| "run ic (Star greedy r) (b, s, c) =
     (let more = concat (map (\<lambda>st'. if length (fst (snd st')) < length s
                                      then run ic (Star greedy r) st' else [])
                             (run ic r (b, s, c)))
      in if greedy then more @ [(b, s, c)] else (b, s, c) # more)"
  by pat_completeness auto
termination
  by (relation "measures [\<lambda>(ic, r, st). size r, \<lambda>(ic, r, st). length (fst (snd st))]") auto

text \<open>
  The run-time's match search: the pattern is tried at index 0, then 1, and so on to
  the end of the input; the first index with a match gives the result, which is the input
  from that index on together with the first state the matcher reaches.
\<close>

fun search :: "bool \<Rightarrow> regex \<Rightarrow> bool \<Rightarrow> string \<Rightarrow> (string \<times> mstate) option" where
  "search ic r b [] =
     (case run ic r (b, [], []) of st # _ \<Rightarrow> Some ([], st) | [] \<Rightarrow> None)"
| "search ic r b (x # xs) =
     (case run ic r (b, x # xs, []) of
        st # _ \<Rightarrow> Some (x # xs, st)
      | [] \<Rightarrow> search ic r False xs)"

text \<open>\<open>pattern.test(s)\<close>\<close>

definition regexp_test :: "regexp \<Rightarrow> string \<Rightarrow> bool" where
  "regexp_test p s = (search (ignoreCase p) (source p) True s \<noteq> None)"

section \<open>Values, events and the configuration\<close>

text \<open>
  A value of type \<open>unknown\<close>. An object is the list of its own enumerable string-keyed
  properties in the order \<open>Object.entries\<close> gives them; in a JavaScript object the keys
  are pairwise distinct (\<open>well_formed\<close> below). A number is never inspected beyond being
  zero, so it is an integer here (no fractions, no NaN). Functions, symbols and big
  integers, which the code passes through like numbers, are left out.
\<close>

datatype jsval =
    JUndefined
  | JNull
  | JBool bool
  | JNum int
  | JStr string
  | JArr "jsval list"
  | JObj "(string \<times> jsval) list"

text \<open>
  An object or array that code of the user can hold on to and change in place lives in
  a store, at an address; a reference to it is its address.
\<close>

type_synonym addr = nat

text \<open>
  The properties of an event object. Its strings are values; \<open>context\<close>, \<open>request\<close>,
  \<open>user\<close> and \<open>tags\<close> refer to objects and arrays, which other objects may refer to as
  well. The array of the backtrace is held with the event: nothing else refers to it here.
\<close>

record CheckendEvent =
  errorClass :: string
  message :: string
  backtrace :: "string list"
  context' :: "addr option"
  request :: "addr option"
  user :: "addr option"
  tags :: "addr option"
  fingerprint :: "string option"

text \<open>
  What stands at an address: an event object, or another object or array, given by its
  value. The store holds the objects in the order of their creation, so that the address
  of an object is its index and a new object takes the next one.
\<close>

datatype cell = EventCell CheckendEvent | ValueCell jsval

type_synonym store = "cell list"

definition cell_at :: "store \<Rightarrow> addr \<Rightarrow> cell option" where
  "cell_at h a = (if a < length h then Some (h ! a) else None)"

definition alloc :: "cell \<Rightarrow> store \<Rightarrow> addr \<times> store" where
  "alloc c h = (length h, h @ [c])"

text \<open>
  The event at an address, and the value behind a property that refers to an object or
  array: \<open>undefined\<close> when the property is absent. In a store of the program every
  reference has its object; where a store has none for it, nothing is read.
\<close>

definition event_at :: "store \<Rightarrow> addr \<Rightarrow> CheckendEvent option" where
  "event_at h a = (case cell_at h a of Some (EventCell ev) \<Rightarrow> Some ev | _ \<Rightarrow> None)"

definition value_at :: "store \<Rightarrow> addr option \<Rightarrow> jsval" where
  "value_at h r =
     (case r of
        None \<Rightarrow> JUndefined
      | Some a \<Rightarrow> (case cell_at h a of Some (ValueCell v) \<Rightarrow> v | _ \<Rightarrow> JUndefined))"

text \<open>
  A \<open>beforeSend\<close> callback is code of the user: called with an event object it returns
  an event object or \<open>null\<close>, or throws a value; and it leaves the store as it has
  changed it. It may change in place the event it was given and what that event refers
  to, and it may create objects.
\<close>

datatype callback_outcome = Returns "addr option" | Throws jsval

type_synonym BeforeSendCallback = "addr \<Rightarrow> store \<Rightarrow> callback_outcome \<times> store"

text \<open>\<open>beforeSend?: BeforeSendCallback | BeforeSendCallback[]\<close>\<close>

datatype beforeSend_option = Single BeforeSendCallback | Multiple "BeforeSendCallback list"

text \<open>An entry of \<open>ignoredRoutes\<close> or \<open>ignoredExceptions\<close>: \<open>string | RegExp\<close>.\<close>

datatype rule = StrRule string | PatRule regexp

text \<open>A logger object supplied by the user; the model knows it by a number only.\<close>

datatype CheckendLogger = UserLogger nat

text \<open>An optional property that is absent is \<open>None\<close>.\<close>

record CheckendNextConfig =
  apiKey :: string
  endpoint :: "string option"
  environment :: "string option"
  appName :: "string option"
  revision :: "string option"
  enableClient :: "bool option"
  enableServer :: "bool option"
  enableEdge :: "bool option"
  ignoredRoutes :: "rule list option"
  ignoredExceptions :: "rule list option"
  filterKeys :: "string list option"
  useDefaultFilterKeys :: "bool option"
  beforeSend :: "beforeSend_option option"
  debug :: "bool option"
  logger :: "CheckendLogger option"
  timeout :: "int option"
  connectTimeout :: "int option"
  maxQueueSize :: "int option"
  shutdownTimeout :: "int option"

definition DEFAULT_FILTER_KEYS :: "string list" where
  "DEFAULT_FILTER_KEYS =
     [''password'', ''passwd'', ''secret'', ''token'', ''api_key'', ''apiKey'', ''api-key'',
      ''authorization'', ''auth'', ''credentials'', ''session'', ''sessionId'', ''session_id'',
      ''credit_card'', ''creditCard'', ''card_number'', ''cardNumber'', ''cvv'', ''cvc'', ''ccv'',
      ''expiry'', ''expiration'',
      ''ssn'', ''social_security'', ''socialSecurity'', ''sin'', ''national_id'', ''nationalId'',
      ''private_key'', ''privateKey'', ''private-key'', ''access_token'', ''accessToken'',
      ''access-token'', ''refresh_token'', ''refreshToken'', ''refresh-token'', ''bearer'',
      ''stripe_key'', ''stripeKey'', ''aws_secret'', ''awsSecret'', ''database_url'',
      ''databaseUrl'', ''connection_string'', ''connectionString'']"

section \<open>The configuration store and the logger\<close>

text \<open>What a call can throw.\<close>

datatype thrown =
    Error string
  | SyntaxError
  | PatternNotModelled

text \<open>
  The methods of a logger and of the console. \<open>Log_level\<close> is \<open>console.log\<close>, which
  only direct calls of the console use; \<open>log\<close> is never called with it.
\<close>

datatype level = Debug_level | Info_level | Warn_level | Error_level | Log_level

text \<open>What a line holds besides its message.\<close>

datatype log_arg =
    ConfigArg CheckendNextConfig
  | ThrownArg jsval
  | ErrorArg thrown
  | StatusArg nat

text \<open>Where a line goes: the console, or a method of the user's logger.\<close>

datatype sink = Console | ToLogger CheckendLogger

record log_line =
  line_sink :: sink
  line_level :: level
  line_message :: string
  line_args :: "log_arg list"

text \<open>The logger in force: the user's, or \<open>createDefaultLogger(debug)\<close>.\<close>

datatype active_logger = Custom CheckendLogger | DefaultLogger bool

text \<open>
  The module state: \<open>globalConfig\<close>, \<open>configuredLogger\<close>, and the lines written so far.
\<close>

record state =
  globalConfig :: "CheckendNextConfig option"
  configuredLogger :: "active_logger option"
  written :: "log_line list"

text \<open>
  \<open>configuredLogger[level](prefixedMessage, ...args)\<close>. The default logger writes
  \<open>debug\<close> lines only when it was created with \<open>debug\<close> true. A method of the
  user's logger is taken to return; the model records the call and nothing of what the
  method does with it.
\<close>

fun logger_call :: "active_logger \<Rightarrow> level \<Rightarrow> string \<Rightarrow> log_arg list \<Rightarrow> state \<Rightarrow> state" where
  "logger_call (Custom l) lv m as st =
     st\<lparr>written := written st @
        [\<lparr>line_sink = ToLogger l, line_level = lv, line_message = m, line_args = as\<rparr>]\<rparr>"
| "logger_call (DefaultLogger dbg) lv m as st =
     (if lv = Debug_level \<and> \<not> dbg then st
      else st\<lparr>written := written st @
        [\<lparr>line_sink = Console, line_level = lv, line_message = m, line_args = as\<rparr>]\<rparr>)"

definition log :: "level \<Rightarrow> string \<Rightarrow> log_arg list \<Rightarrow> state \<Rightarrow> state" where
  "log lv m as st =
     (case configuredLogger st of
        None \<Rightarrow> st
      | Some lg \<Rightarrow> logger_call lg lv (''[Checkend] '' @ m) as st)"

text \<open>
  \<open>{ defaults, ...options }\<close>: a default stands where the option is absent. An option
  given as \<open>undefined\<close> in so many words, which the spread would put in place of the
  default, is not modelled.
\<close>

definition or_default :: "'a \<Rightarrow> 'a option \<Rightarrow> 'a option" where
  "or_default d x = (case x of None \<Rightarrow> Some d | Some v \<Rightarrow> Some v)"

definition merge_defaults :: "CheckendNextConfig \<Rightarrow> CheckendNextConfig" where
  "merge_defaults options =
     options\<lparr>enableClient := or_default True (enableClient options),
              enableServer := or_default True (enableServer options),
              enableEdge := or_default True (enableEdge options),
              debug := or_default False (debug options),
              useDefaultFilterKeys := or_default True (useDefaultFilterKeys options),
              timeout := or_default 30000 (timeout options),
              connectTimeout := or_default 10000 (connectTimeout options),
              maxQueueSize := or_default 1000 (maxQueueSize options),
              shutdownTimeout := or_default 5000 (shutdownTimeout options)\<rparr>"

text \<open>\<open>apiKey.slice(0, 8) + '...'\<close>\<close>

definition masked_key :: "string \<Rightarrow> string" where
  "masked_key k = take 8 k @ ''...''"

definition init :: "CheckendNextConfig \<Rightarrow> state \<Rightarrow> thrown + (CheckendNextConfig \<times> state)" where
  "init options st =
     (if apiKey options = [] then Inl (Error ''Checkend: apiKey is required'')
      else
        let cfg = merge_defaults options;
            lg = (case logger cfg of
                    Some l \<Rightarrow> Custom l
                  | None \<Rightarrow> DefaultLogger (case debug cfg of Some d \<Rightarrow> d | None \<Rightarrow> False));
            st1 = st\<lparr>globalConfig := Some cfg, configuredLogger := Some lg\<rparr>;
            st2 = (if debug cfg = Some True
                   then log Debug_level ''Initialized with config:''
                          [ConfigArg (cfg\<lparr>apiKey := masked_key (apiKey cfg)\<rparr>)] st1
                   else st1)
        in Inr (cfg, st2))"

definition getConfig :: "state \<Rightarrow> thrown + CheckendNextConfig" where
  "getConfig st =
     (case globalConfig st of
        None \<Rightarrow> Inl (Error
          ''Checkend not initialized. Call init() first, typically in instrumentation.ts'')
      | Some c \<Rightarrow> Inr c)"

definition isInitialized :: "state \<Rightarrow> bool" where
  "isInitialized st = (globalConfig st \<noteq> None)"

definition reset :: "state \<Rightarrow> state" where
  "reset st = st\<lparr>globalConfig := None, configuredLogger := None\<rparr>"

section \<open>The matcher\<close>

text \<open>The callback of \<open>ignoredRoutes.some\<close>.\<close>

fun route_rule :: "string \<Rightarrow> rule \<Rightarrow> bool" where
  "route_rule route (StrRule pattern) = (route = pattern \<or> startsWith route pattern)"
| "route_rule route (PatRule pattern) = regexp_test pattern route"

definition shouldIgnoreRoute :: "string \<Rightarrow> state \<Rightarrow> thrown + bool" where
  "shouldIgnoreRoute route st =
     (case getConfig st of
        Inl e \<Rightarrow> Inl e
      | Inr config \<Rightarrow>
          (case ignoredRoutes config of
             None \<Rightarrow> Inr False
           | Some rules \<Rightarrow>
               if length rules = 0 then Inr False
               else Inr (list_ex (route_rule route) rules)))"

text \<open>A JavaScript \<open>Error\<close>: its \<open>name\<close>, \<open>message\<close> and \<open>stack\<close>.\<close>

datatype js_Error = JsError (err_name: string) (err_message: string) (err_stack: "string option")

text \<open>The callback of \<open>ignoredExceptions.some\<close>; \<open>errorString\<close> is \<open>name: message\<close>.\<close>

fun exception_rule :: "js_Error \<Rightarrow> string \<Rightarrow> rule \<Rightarrow> bool" where
  "exception_rule error errorString (StrRule pattern) =
     (err_name error = pattern \<or> includes_str (err_message error) pattern)"
| "exception_rule error errorString (PatRule pattern) = regexp_test pattern errorString"

definition shouldIgnoreException :: "js_Error \<Rightarrow> state \<Rightarrow> thrown + bool" where
  "shouldIgnoreException error st =
     (case getConfig st of
        Inl e \<Rightarrow> Inl e
      | Inr config \<Rightarrow>
          (case ignoredExceptions config of
             None \<Rightarrow> Inr False
           | Some rules \<Rightarrow>
               if length rules = 0 then Inr False
               else let errorString = err_name error @ '': '' @ err_message error
                    in Inr (list_ex (exception_rule error errorString) rules)))"

section \<open>Compiling a pattern from its source text\<close>

text \<open>
  \<open>new RegExp(src, 'i')\<close> parses \<open>src\<close>. The model parses the part of the pattern
  syntax made of literal characters, \<open>|\<close>, groups \<open>( )\<close> and \<open>(?: )\<close>, \<open>.\<close>,
  \<open>^\<close>, \<open>$\<close>, the quantifiers \<open>*\<close>, \<open>+\<close>, \<open>?\<close> and their lazy forms, the escapes
  of the syntax characters, \<open>\d\<close> and \<open>\s\<close>. A source the run-time rejects gives
  \<open>SyntaxError\<close>; a source with any other construct (a character class, a braced
  quantifier, a look-around, another escape) gives \<open>PatternNotModelled\<close>, about which
  the model says nothing.
\<close>

datatype quant = QStar | QPlus | QOpt

text \<open>
  A term of an alternative while it is parsed: an atom or group that may still take a
  quantifier, a quantified term that may still be made lazy, a lazy term, an assertion.
\<close>

datatype pterm = T regex | Q quant regex | L quant regex | A regex

fun quantified :: "bool \<Rightarrow> quant \<Rightarrow> regex \<Rightarrow> regex" where
  "quantified greedy QStar r = Star greedy r"
| "quantified greedy QPlus r = Seq r (Star greedy r)"
| "quantified greedy QOpt r = (if greedy then Alt r Eps else Alt Eps r)"

fun term_regex :: "pterm \<Rightarrow> regex" where
  "term_regex (T r) = r"
| "term_regex (Q q r) = quantified True q r"
| "term_regex (L q r) = quantified False q r"
| "term_regex (A r) = r"

fun seq_of :: "regex list \<Rightarrow> regex" where
  "seq_of [] = Eps"
| "seq_of (r # rs) = Seq r (seq_of rs)"

fun alt_of :: "regex list \<Rightarrow> regex" where
  "alt_of [] = Eps"
| "alt_of [r] = r"
| "alt_of (r # rs) = Alt r (alt_of rs)"

text \<open>
  A group being parsed: its capture index (none for \<open>(?: )\<close> and for the whole pattern),
  the alternatives that are complete and the terms of the current one, both latest first.
\<close>

type_synonym frame = "nat option \<times> regex list \<times> pterm list"

definition add_term :: "pterm \<Rightarrow> frame \<Rightarrow> frame" where
  "add_term t f = (case f of (g, alts, ts) \<Rightarrow> (g, alts, t # ts))"

definition close_alt :: "pterm list \<Rightarrow> regex" where
  "close_alt ts = seq_of (map term_regex (rev ts))"

definition next_alt :: "frame \<Rightarrow> frame" where
  "next_alt f = (case f of (g, alts, ts) \<Rightarrow> (g, close_alt ts # alts, []))"

definition frame_regex :: "frame \<Rightarrow> regex" where
  "frame_regex f =
     (case f of (g, alts, ts) \<Rightarrow>
        let r = alt_of (rev (close_alt ts # alts))
        in case g of None \<Rightarrow> r | Some k \<Rightarrow> Group k r)"

text \<open>A quantifier applies to the latest term; with nothing to repeat the source is rejected.\<close>

definition add_quant :: "quant \<Rightarrow> frame \<Rightarrow> frame option" where
  "add_quant q f =
     (case f of (g, alts, ts) \<Rightarrow>
        (case ts of
           [] \<Rightarrow> None
         | T r # ts' \<Rightarrow> Some (g, alts, Q q r # ts')
         | Q q' r # ts' \<Rightarrow> if q = QOpt then Some (g, alts, L q' r # ts') else None
         | L q' r # ts' \<Rightarrow> None
         | A r # ts' \<Rightarrow> None))"

definition syntax_chars :: "char list" where
  "syntax_chars = CHR 0x5C # ''^$.*+?()[]{}|''"

text \<open>
  The parser: the current group, the enclosing groups, the index of the next capturing
  group, the source that is left.
\<close>

fun parse :: "frame \<Rightarrow> frame list \<Rightarrow> nat \<Rightarrow> string \<Rightarrow> thrown + regex" where
  "parse cur stack n [] =
     (case stack of [] \<Rightarrow> Inr (frame_regex cur) | _ # _ \<Rightarrow> Inl SyntaxError)"
| "parse cur stack n (c # cs) =
     (if c = CHR 0x5C then
        (case cs of
           [] \<Rightarrow> Inl SyntaxError
         | e # cs' \<Rightarrow>
             if e \<in> set syntax_chars \<or> e = CHR ''/''
               then parse (add_term (T (Atom (Ch e))) cur) stack n cs'
             else if e = CHR ''d'' then parse (add_term (T (Atom Digit)) cur) stack n cs'
             else if e = CHR ''s'' then parse (add_term (T (Atom Space)) cur) stack n cs'
             else Inl PatternNotModelled)
      else if c = CHR ''('' then
        (case cs of
           [] \<Rightarrow> Inl SyntaxError
         | e # cs' \<Rightarrow>
             if e = CHR ''?'' then
               (case cs' of
                  [] \<Rightarrow> Inl SyntaxError
                | e' # cs'' \<Rightarrow>
                    if e' = CHR '':'' then parse (None, [], []) (cur # stack) n cs''
                    else Inl PatternNotModelled)
             else parse (Some n, [], []) (cur # stack) (Suc n) cs)
      else if c = CHR '')'' then
        (case stack of
           [] \<Rightarrow> Inl SyntaxError
         | parent # stack' \<Rightarrow> parse (add_term (T (frame_regex cur)) parent) stack' n cs)
      else if c = CHR ''|'' then parse (next_alt cur) stack n cs
      else if c = CHR ''*'' then
        (case add_quant QStar cur of None \<Rightarrow> Inl SyntaxError | Some f \<Rightarrow> parse f stack n cs)
      else if c = CHR ''+'' then
        (case add_quant QPlus cur of None \<Rightarrow> Inl SyntaxError | Some f \<Rightarrow> parse f stack n cs)
      else if c = CHR ''?'' then
        (case add_quant QOpt cur of None \<Rightarrow> Inl SyntaxError | Some f \<Rightarrow> parse f stack n cs)
      else if c = CHR ''^'' then parse (add_term (A Bol) cur) stack n cs
      else if c = CHR ''$'' then parse (add_term (A Eol) cur) stack n cs
      else if c = CHR ''.'' then parse (add_term (T (Atom Dot)) cur) stack n cs
      else if c = CHR ''['' \<or> c = CHR ''{'' then Inl PatternNotModelled
      else parse (add_term (T (Atom (Ch c))) cur) stack n cs)"

definition new_RegExp :: "string \<Rightarrow> bool \<Rightarrow> thrown + regexp" where
  "new_RegExp src ic =
     (case parse (None, [], []) [] 1 src of
        Inl e \<Rightarrow> Inl e
      | Inr r \<Rightarrow> Inr (RegExp r ic))"

section \<open>The redactor\<close>

text \<open>\<open>[...new Set(xs)]\<close>: the elements in the order of their first occurrence.\<close>

fun set_insert_all :: "string list \<Rightarrow> string list \<Rightarrow> string list" where
  "set_insert_all seen [] = seen"
| "set_insert_all seen (x # xs) =
     set_insert_all (if x \<in> set seen then seen else seen @ [x]) xs"

definition getFilterKeys :: "state \<Rightarrow> thrown + string list" where
  "getFilterKeys st =
     (case getConfig st of
        Inl e \<Rightarrow> Inl e
      | Inr config \<Rightarrow>
          let customKeys = (case filterKeys config of None \<Rightarrow> [] | Some ks \<Rightarrow> ks)
          in if useDefaultFilterKeys config \<noteq> Some False
             then Inr (set_insert_all [] (DEFAULT_FILTER_KEYS @ customKeys))
             else Inr customKeys)"

text \<open>
  \<open>result[key] = v\<close> on the object being built: a key that is there keeps its place.
  The key \<open>__proto__\<close>, for which the assignment sets the prototype instead of a
  property, is not modelled.
\<close>

fun assign :: "(string \<times> jsval) list \<Rightarrow> string \<Rightarrow> jsval \<Rightarrow> (string \<times> jsval) list" where
  "assign [] key v = [(key, v)]"
| "assign ((k, w) # rest) key v =
     (if k = key then (k, v) # rest else (k, w) # assign rest key v)"

text \<open>
  \<open>sanitizeValue\<close>, with the \<open>map\<close> over an array and the loop over the entries of an
  object as functions of their own; both are entered with \<open>depth + 1\<close>.
\<close>

fun sanitizeValue :: "regexp \<Rightarrow> int \<Rightarrow> jsval \<Rightarrow> nat \<Rightarrow> jsval"
  and sanitizeItems :: "regexp \<Rightarrow> int \<Rightarrow> jsval list \<Rightarrow> nat \<Rightarrow> jsval list"
  and sanitizeEntries ::
    "regexp \<Rightarrow> int \<Rightarrow> (string \<times> jsval) list \<Rightarrow> nat \<Rightarrow> (string \<times> jsval) list
       \<Rightarrow> (string \<times> jsval) list"
where
  "sanitizeValue filterPattern maxDepth v depth =
     (if int depth > maxDepth then JStr ''[MAX_DEPTH]''
      else case v of
          JNull \<Rightarrow> JNull
        | JUndefined \<Rightarrow> JUndefined
        | JStr s \<Rightarrow>
            JStr (if length s > 10000 then take 10000 s @ ''...[TRUNCATED]'' else s)
        | JArr items \<Rightarrow> JArr (sanitizeItems filterPattern maxDepth items (depth + 1))
        | JObj entries \<Rightarrow>
            JObj (sanitizeEntries filterPattern maxDepth entries (depth + 1) [])
        | other \<Rightarrow> other)"
| "sanitizeItems filterPattern maxDepth [] d = []"
| "sanitizeItems filterPattern maxDepth (item # items) d =
     sanitizeValue filterPattern maxDepth item d
       # sanitizeItems filterPattern maxDepth items d"
| "sanitizeEntries filterPattern maxDepth [] d result = result"
| "sanitizeEntries filterPattern maxDepth ((key, val) # entries) d result =
     sanitizeEntries filterPattern maxDepth entries d
       (assign result key
          (if regexp_test filterPattern key then JStr ''[FILTERED]''
           else sanitizeValue filterPattern maxDepth val d))"

text \<open>
  \<open>sanitize(data, maxDepth = 10)\<close>. The depth limit is an integer, possibly negative;
  a limit that is NaN, infinite or fractional is not modelled.
\<close>

definition sanitize :: "jsval \<Rightarrow> int option \<Rightarrow> state \<Rightarrow> thrown + jsval" where
  "sanitize data maxDepth_arg st =
     (let maxDepth = (case maxDepth_arg of None \<Rightarrow> 10 | Some m \<Rightarrow> m)
      in case getFilterKeys st of
           Inl e \<Rightarrow> Inl e
         | Inr keys \<Rightarrow>
             (case new_RegExp (join keys ''|'') True of
                Inl e \<Rightarrow> Inl e
              | Inr filterPattern \<Rightarrow> Inr (sanitizeValue filterPattern maxDepth data 0)))"

section \<open>The callback chain\<close>

text \<open>
  The loop of \<open>applyBeforeSend\<close> over the callbacks that are left. The variable
  \<open>result\<close> holds a reference to an event object, or \<open>null\<close>; it goes together with the
  store. When a callback throws, \<open>result\<close> keeps the reference it had, and the object it
  refers to is as the callback left it. Besides the module state the loop keeps the calls
  made: the argument of each callback invoked, in order.
\<close>

fun callbacks_loop ::
  "BeforeSendCallback list \<Rightarrow> addr option \<times> store \<Rightarrow> state \<Rightarrow> addr list
     \<Rightarrow> (addr option \<times> store) \<times> state \<times> addr list" where
  "callbacks_loop [] rh st calls = (rh, st, calls)"
| "callbacks_loop (callback # rest) (result, h) st calls =
     (case result of
        None \<Rightarrow> ((None, h), st, calls)
      | Some ev \<Rightarrow>
          (case callback ev h of
             (Returns r, h') \<Rightarrow> callbacks_loop rest (r, h') st (calls @ [ev])
           | (Throws err, h') \<Rightarrow>
               callbacks_loop rest (Some ev, h')
                 (log Error_level ''beforeSend callback threw an error:'' [ThrownArg err] st)
                 (calls @ [ev])))"

text \<open>
  \<open>applyBeforeSend(event)\<close>: what it returns comes with the store, the module state and
  the calls made.
\<close>

definition applyBeforeSend ::
  "addr \<Rightarrow> store \<Rightarrow> state \<Rightarrow> thrown + ((addr option \<times> store) \<times> state \<times> addr list)" where
  "applyBeforeSend event h st =
     (case getConfig st of
        Inl e \<Rightarrow> Inl e
      | Inr config \<Rightarrow>
          (case beforeSend config of
             None \<Rightarrow> Inr ((Some event, h), st, [])
           | Some bs \<Rightarrow>
               let callbacks = (case bs of Multiple cbs \<Rightarrow> cbs | Single cb \<Rightarrow> [cb])
               in Inr (callbacks_loop callbacks (Some event, h) st [])))"

section \<open>The stack trace parser\<close>

record backtrace_frame =
  method' :: string
  file' :: string
  number :: nat

text \<open>\<open>r+\<close>, \<open>r+?\<close> and \<open>r?\<close>\<close>

definition one_or_more :: "bool \<Rightarrow> regex \<Rightarrow> regex" where
  "one_or_more greedy r = Seq r (Star greedy r)"

definition optional :: "regex \<Rightarrow> regex" where
  "optional r = Alt r Eps"

text \<open>\<open>/at\s+(?:(.+?)\s+\()?(.+?):(\d+)(?::\d+)?\)?/\<close>\<close>

definition stack_line_pattern :: regex where
  "stack_line_pattern =
     seq_of
       [Atom (Ch CHR ''a''), Atom (Ch CHR ''t''), one_or_more True (Atom Space),
        optional (seq_of [Group 1 (one_or_more False (Atom Dot)), one_or_more True (Atom Space),
                     Atom (Ch CHR ''('')]),
        Group 2 (one_or_more False (Atom Dot)),
        Atom (Ch CHR '':''),
        Group 3 (one_or_more True (Atom Digit)),
        optional (seq_of [Atom (Ch CHR '':''), one_or_more True (Atom Digit)]),
        optional (Atom (Ch CHR '')''))]"

text \<open>
  \<open>line.match(pattern)\<close> for a pattern without the \<open>g\<close> flag: the captures of the
  first match, or \<open>null\<close>. \<open>match[k]\<close> is \<open>undefined\<close> for a group that took no part.
\<close>

definition match_line :: "regex \<Rightarrow> string \<Rightarrow> (nat \<rightharpoonup> string) option" where
  "match_line r line =
     (case search False r True line of
        None \<Rightarrow> None
      | Some (start, b, rest, caps) \<Rightarrow> Some (map_of caps))"

text \<open>
  \<open>parseInt(s, 10)\<close> for a string that starts with a digit or holds none: the value of
  the leading digits, \<open>NaN\<close> (here \<open>None\<close>) without one. The value is exact; the rounding
  of a number beyond \<open>2^53\<close> is not modelled.
\<close>

definition is_digit :: "char \<Rightarrow> bool" where
  "is_digit c = (48 \<le> code_unit c \<and> code_unit c \<le> 57)"

definition parseInt10 :: "string \<Rightarrow> nat option" where
  "parseInt10 s =
     (case takeWhile is_digit s of
        [] \<Rightarrow> None
      | d # ds \<Rightarrow> Some (foldl (\<lambda>n c. 10 * n + (code_unit c - 48)) 0 (d # ds)))"

text \<open>\<open>x || d\<close> for an optional string: the empty string and \<open>undefined\<close> give \<open>d\<close>.\<close>

definition str_or :: "string option \<Rightarrow> string \<Rightarrow> string" where
  "str_or x d = (case x of None \<Rightarrow> d | Some s \<Rightarrow> if s = [] then d else s)"

text \<open>\<open>n || 0\<close> for the result of \<open>parseInt\<close>.\<close>

definition num_or_zero :: "nat option \<Rightarrow> nat" where
  "num_or_zero x = (case x of None \<Rightarrow> 0 | Some n \<Rightarrow> n)"

definition frame_of_match :: "(nat \<rightharpoonup> string) \<Rightarrow> backtrace_frame" where
  "frame_of_match m =
     \<lparr>method' = str_or (m 1) ''<anonymous>'',
      file' = str_or (m 2) ''<unknown>'',
      number = num_or_zero (case m 3 of None \<Rightarrow> None | Some s \<Rightarrow> parseInt10 s)\<rparr>"

text \<open>The loop over the lines, pushing a frame for each line that matches.\<close>

fun lines_loop :: "string list \<Rightarrow> backtrace_frame list \<Rightarrow> backtrace_frame list" where
  "lines_loop [] bt = bt"
| "lines_loop (line # lines) bt =
     (case match_line stack_line_pattern line of
        None \<Rightarrow> lines_loop lines bt
      | Some m \<Rightarrow> lines_loop lines (bt @ [frame_of_match m]))"

text \<open>\<open>stack\<close> is \<open>string | undefined\<close>; \<open>!stack\<close> holds for the empty string too.\<close>

definition parseStackTrace :: "string option \<Rightarrow> backtrace_frame list" where
  "parseStackTrace stack =
     (case stack of
        None \<Rightarrow> []
      | Some s \<Rightarrow> if s = [] then [] else lines_loop (drop 1 (split_lines s)) [])"

section \<open>JSON text\<close>

text \<open>
  \<open>JSON.stringify\<close> leaves out a property whose value is \<open>undefined\<close> and writes
  \<open>null\<close> for an \<open>undefined\<close> array element; \<open>json_clean\<close> is the value that is
  written.
\<close>

fun json_clean :: "jsval \<Rightarrow> jsval"
  and json_clean_items :: "jsval list \<Rightarrow> jsval list"
  and json_clean_entries :: "(string \<times> jsval) list \<Rightarrow> (string \<times> jsval) list"
where
  "json_clean (JArr items) = JArr (json_clean_items items)"
| "json_clean (JObj entries) = JObj (json_clean_entries entries)"
| "json_clean JUndefined = JUndefined"
| "json_clean JNull = JNull"
| "json_clean (JBool b) = JBool b"
| "json_clean (JNum n) = JNum n"
| "json_clean (JStr s) = JStr s"
| "json_clean_items [] = []"
| "json_clean_items (v # vs) =
     (if v = JUndefined then JNull else json_clean v) # json_clean_items vs"
| "json_clean_entries [] = []"
| "json_clean_entries ((k, v) # es) =
     (if v = JUndefined then json_clean_entries es
      else (k, json_clean v) # json_clean_entries es)"

text \<open>
  A text that travels as a request or response body. A JSON text is held as the value it
  denotes, so that \<open>JSON.parse(JSON.stringify(v))\<close> is \<open>json_clean v\<close>; any other text
  is held as it is, and parsing it throws.
\<close>

datatype json_text = JsonText jsval | OtherText string

definition JSON_stringify :: "jsval \<Rightarrow> json_text" where
  "JSON_stringify v = JsonText (json_clean v)"

fun JSON_parse :: "json_text \<Rightarrow> thrown + jsval" where
  "JSON_parse (JsonText v) = Inr v"
| "JSON_parse (OtherText s) = Inl SyntaxError"

text \<open>\<open>if (body)\<close>: a body is truthy unless it is the empty string.\<close>

fun body_truthy :: "json_text \<Rightarrow> bool" where
  "body_truthy (JsonText v) = True"
| "body_truthy (OtherText s) = (s \<noteq> [])"

section \<open>The transport\<close>

record fetch_init =
  init_method :: string
  init_headers :: "(string \<times> string) list"
  init_body :: "json_text option"

record response =
  status :: nat
  response_body :: json_text

text \<open>A transport of the host: what a call returns or throws.\<close>

type_synonym fetch_fn = "string \<Rightarrow> fetch_init option \<Rightarrow> thrown + response"

text \<open>The value of \<open>globalThis.fetch\<close>: a transport of the host, or the interceptor.\<close>

datatype fetch_value = HostFetch fetch_fn | MockFetch

section \<open>The capture harness\<close>

datatype runtime = client | server | edge

record CapturedNotice =
  captured_errorClass :: jsval
  captured_message :: jsval
  captured_backtrace :: jsval
  captured_context :: jsval
  captured_request :: jsval
  captured_user :: jsval
  captured_tags :: jsval
  captured_fingerprint :: jsval
  occurredAt :: nat
  runtime_tag :: runtime

text \<open>
  The state of the testing module together with \<open>globalThis.fetch\<close>.
\<close>

record world =
  capturedNotices :: "CapturedNotice list"
  isTestMode :: bool
  originalFetch :: "fetch_fn option"
  global_fetch :: "fetch_value option"

text \<open>
  What the harness reads from its surroundings: whether \<open>window\<close> is defined, the clock,
  and the random part of a fabricated identifier.
\<close>

record env =
  has_window :: bool
  now :: nat
  fresh_id :: string

text \<open>
  \<open>payload.key\<close> for a parsed payload. Reading a property of \<open>null\<close> or
  \<open>undefined\<close> throws a \<open>TypeError\<close>; an object gives the property or
  \<open>undefined\<close>; and the keys read here are no properties of a number, a boolean, a
  string or an array.
\<close>

fun read_throws :: "jsval \<Rightarrow> bool" where
  "read_throws JNull = True"
| "read_throws JUndefined = True"
| "read_throws v = False"

fun get_prop :: "jsval \<Rightarrow> string \<Rightarrow> jsval" where
  "get_prop (JObj entries) k = (case map_of entries k of None \<Rightarrow> JUndefined | Some v \<Rightarrow> v)"
| "get_prop v k = JUndefined"

fun truthy :: "jsval \<Rightarrow> bool" where
  "truthy JUndefined = False"
| "truthy JNull = False"
| "truthy (JBool b) = b"
| "truthy (JNum n) = (n \<noteq> 0)"
| "truthy (JStr s) = (s \<noteq> [])"
| "truthy (JArr items) = True"
| "truthy (JObj entries) = True"

text \<open>\<open>a || b\<close>\<close>

definition js_or :: "jsval \<Rightarrow> jsval \<Rightarrow> jsval" where
  "js_or a b = (if truthy a then a else b)"

text \<open>
  The notice the interceptor makes of a payload; \<open>None\<close> when a property read throws.
\<close>

definition notice_of_payload :: "jsval \<Rightarrow> nat \<Rightarrow> runtime \<Rightarrow> CapturedNotice option" where
  "notice_of_payload payload time rt =
     (if read_throws payload then None
      else
        Some \<lparr>captured_errorClass =
                 js_or (get_prop payload ''error_class'')
                   (js_or (get_prop payload ''errorClass'') (JStr ''Error'')),
               captured_message = js_or (get_prop payload ''message'') (JStr []),
               captured_backtrace = js_or (get_prop payload ''backtrace'') (JArr []),
               captured_context = get_prop payload ''context'',
               captured_request = get_prop payload ''request'',
               captured_user = get_prop payload ''user'',
               captured_tags = get_prop payload ''tags'',
               captured_fingerprint = get_prop payload ''fingerprint'',
               occurredAt = time,
               runtime_tag = rt\<rparr>)"

text \<open>
  \<open>init?.headers?.toString()\<close>: the headers of a call are a plain object, whose
  \<open>toString\<close> is fixed.
\<close>

definition headers_toString :: "(string \<times> string) list \<Rightarrow> string" where
  "headers_toString hs = ''[object Object]''"

text \<open>
  The function \<open>createMockFetch\<close> returns. A call to an ingestion URL is captured when
  it has a body that parses and whose properties can be read, and is answered with a
  fabricated 201 response in any case; any other call goes to the original transport.
  The runtime of a notice is determined from \<open>window\<close>, the URL and the headers. The
  input of a call is given by its URL, and a body is a string.
\<close>

definition runtime_of :: "env \<Rightarrow> string \<Rightarrow> fetch_init option \<Rightarrow> runtime" where
  "runtime_of e url req =
     (if has_window e then client
      else if includes_str url ''edge''
              \<or> (case req of
                    None \<Rightarrow> False
                  | Some i \<Rightarrow> includes_str (headers_toString (init_headers i)) ''edge'')
           then edge
      else server)"

definition mock_fetch ::
  "env \<Rightarrow> string \<Rightarrow> fetch_init option \<Rightarrow> world \<Rightarrow> (thrown + response) \<times> world" where
  "mock_fetch e url req w =
     (if includes_str url ''/ingest/'' \<or> includes_str url ''checkend'' then
        let body = (case req of None \<Rightarrow> None | Some i \<Rightarrow> init_body i);
            captured =
              (case body of
                 None \<Rightarrow> None
               | Some b \<Rightarrow>
                   if body_truthy b then
                     (case JSON_parse b of
                        Inl err \<Rightarrow> None
                      | Inr payload \<Rightarrow>
                          notice_of_payload payload (now e) (runtime_of e url req))
                   else None);
            w' = (case captured of
                    None \<Rightarrow> w
                  | Some notice \<Rightarrow> w\<lparr>capturedNotices := capturedNotices w @ [notice]\<rparr>)
        in (Inr \<lparr>status = 201,
                  response_body = JSON_stringify (JObj [(''id'', JStr (''test-'' @ fresh_id e))])\<rparr>,
            w')
      else
        (case originalFetch w of
           Some f \<Rightarrow> (f url req, w)
         | None \<Rightarrow> (Inl (Error ''Original fetch not available''), w)))"

text \<open>A call of \<open>fetch\<close>: of whatever \<open>globalThis.fetch\<close> is.\<close>

definition call_fetch ::
  "env \<Rightarrow> string \<Rightarrow> fetch_init option \<Rightarrow> world \<Rightarrow> (thrown + response) \<times> world" where
  "call_fetch e url req w =
     (case global_fetch w of
        None \<Rightarrow> (Inl (Error ''fetch is not defined''), w)
      | Some (HostFetch f) \<Rightarrow> (f url req, w)
      | Some MockFetch \<Rightarrow> mock_fetch e url req w)"

section \<open>The edge notifier\<close>

text \<open>A number in a template string: its decimal digits.\<close>

fun decimal :: "nat \<Rightarrow> string" where
  "decimal n =
     (if n < 10 then [char_of (48 + n)]
      else decimal (n div 10) @ [char_of (48 + n mod 10)])"

declare decimal.simps [simp del]

text \<open>
  \<open>toLowerCase\<close> on the code units of the model: A-Z and the accented capitals
  (U+00C0 to U+00DE without the multiplication sign) move up by 32.
\<close>

definition to_lower :: "char \<Rightarrow> char" where
  "to_lower c =
     (let n = code_unit c
      in if (65 \<le> n \<and> n \<le> 90) \<or> (192 \<le> n \<and> n \<le> 222 \<and> n \<noteq> 215)
         then char_of (n + 32) else c)"

definition toLowerCase :: "string \<Rightarrow> string" where
  "toLowerCase s = map to_lower s"

text \<open>
  A \<open>Request\<close>: the path and the query of its URL (the URL of a \<open>Request\<close> is
  absolute, so \<open>new URL\<close> does not throw on it), its method, and its headers as
  \<open>Headers.forEach\<close> goes through them.
\<close>

record edge_request =
  req_pathname :: string
  req_search :: string
  req_method :: string
  req_headers :: "(string \<times> string) list"

text \<open>The loop of \<open>filterHeaders\<close> over the headers, building \<open>filtered\<close>.\<close>

fun headers_loop ::
  "string list \<Rightarrow> (string \<times> string) list \<Rightarrow> (string \<times> jsval) list \<Rightarrow> (string \<times> jsval) list" where
  "headers_loop sensitiveKeys [] filtered = filtered"
| "headers_loop sensitiveKeys ((key, v) # hs) filtered =
     headers_loop sensitiveKeys hs
       (assign filtered key
          (if toLowerCase key \<in> set sensitiveKeys then JStr ''[FILTERED]'' else JStr v))"

definition filterHeaders :: "(string \<times> string) list \<Rightarrow> string list option \<Rightarrow> jsval" where
  "filterHeaders headers keys_arg =
     (let keys = (case keys_arg of None \<Rightarrow> [] | Some ks \<Rightarrow> ks);
          sensitiveKeys =
            [''authorization'', ''cookie'', ''x-api-key'', ''x-auth-token''] @ map toLowerCase keys
      in JObj (headers_loop sensitiveKeys headers []))"

text \<open>\<open>headers.get('user-agent') || undefined\<close>\<close>

definition user_agent_of :: "(string \<times> string) list \<Rightarrow> jsval" where
  "user_agent_of headers =
     (case find (\<lambda>h. toLowerCase (fst h) = ''user-agent'') headers of
        None \<Rightarrow> JUndefined
      | Some h \<Rightarrow> if snd h = [] then JUndefined else JStr (snd h))"

text \<open>
  The second argument of \<open>notify\<close>: every property is optional. The context, the user
  and the tags are objects of the caller, given by reference.
\<close>

record notify_options =
  opt_context :: "addr option"
  opt_request :: "edge_request option"
  opt_user :: "addr option"
  opt_tags :: "addr option"
  opt_fingerprint :: "string option"

text \<open>\<open>options?.x\<close>\<close>

definition option_of :: "notify_options option \<Rightarrow> (notify_options \<Rightarrow> 'a option) \<Rightarrow> 'a option" where
  "option_of options sel = (case options of None \<Rightarrow> None | Some o' \<Rightarrow> sel o')"

text \<open>A list of tags and a string as values: \<open>undefined\<close> when absent.\<close>

definition tags_value :: "string list option \<Rightarrow> jsval" where
  "tags_value x = (case x of None \<Rightarrow> JUndefined | Some ts \<Rightarrow> JArr (map JStr ts))"

definition string_value :: "string option \<Rightarrow> jsval" where
  "string_value x = (case x of None \<Rightarrow> JUndefined | Some s \<Rightarrow> JStr s)"

definition frame_value :: "backtrace_frame \<Rightarrow> jsval" where
  "frame_value b =
     JObj [(''method'', JStr (method' b)), (''file'', JStr (file' b)),
           (''number'', JNum (int (number b)))]"

text \<open>
  The object \<open>notice\<close> of \<open>notify\<close>, with \<open>notice.request\<close> set when a request is given,
  as a value. Its \<open>context\<close>, \<open>user\<close> and \<open>tags\<close> are the objects of the caller
  themselves, so the value depends on the store in which it is read; the other properties
  are strings and objects that \<open>notify\<close> makes and nothing else refers to.
\<close>

definition edge_notice ::
  "js_Error \<Rightarrow> notify_options option \<Rightarrow> CheckendNextConfig \<Rightarrow> store \<Rightarrow> jsval" where
  "edge_notice error options config h =
     (let notice =
            [(''error_class'', JStr (err_name error)),
             (''message'', JStr (err_message error)),
             (''backtrace'', JArr (map frame_value (parseStackTrace (err_stack error)))),
             (''context'', value_at h (option_of options opt_context)),
             (''user'', value_at h (option_of options opt_user)),
             (''tags'', value_at h (option_of options opt_tags)),
             (''fingerprint'', string_value (option_of options opt_fingerprint)),
             (''notifier'',
                JObj [(''name'', JStr ''@checkend/nextjs''), (''version'', JStr ''0.1.0''),
                      (''url'', JStr ''https://github.com/Checkend/checkend-nextjs'')])]
      in case option_of options opt_request of
           None \<Rightarrow> JObj notice
         | Some r \<Rightarrow>
             JObj (assign notice ''request''
                     (JObj [(''url'', JStr (req_pathname r @ req_search r)),
                            (''method'', JStr (req_method r)),
                            (''headers'', filterHeaders (req_headers r) (filterKeys config)),
                            (''user_agent'', user_agent_of (req_headers r))])))"

text \<open>
  The event handed to \<open>applyBeforeSend\<close>: its \<open>context\<close>, \<open>user\<close> and \<open>tags\<close> are
  those of the notice, the same objects.
\<close>

definition edge_event :: "js_Error \<Rightarrow> notify_options option \<Rightarrow> CheckendEvent" where
  "edge_event error options =
     \<lparr>errorClass = err_name error,
      message = err_message error,
      backtrace = map (\<lambda>b. file' b @ '':'' @ decimal (number b) @ '':in `'' @ method' b @ ''`'')
                      (parseStackTrace (err_stack error)),
      context' = option_of options opt_context,
      request = None,
      user = option_of options opt_user,
      tags = option_of options opt_tags,
      fingerprint = option_of options opt_fingerprint\<rparr>"

text \<open>A direct call of the console.\<close>

definition console :: "level \<Rightarrow> string \<Rightarrow> log_arg list \<Rightarrow> state \<Rightarrow> state" where
  "console lv m as st =
     st\<lparr>written := written st @
        [\<lparr>line_sink = Console, line_level = lv, line_message = m, line_args = as\<rparr>]\<rparr>"

text \<open>
  The part of \<open>notify\<close> that sends: the call of \<open>fetch\<close> in its \<open>try\<close>, with the
  failure caught and both outcomes logged when \<open>debug\<close> is on.
\<close>

definition send_notice ::
  "CheckendNextConfig \<Rightarrow> jsval \<Rightarrow> env \<Rightarrow> state \<Rightarrow> world \<Rightarrow> state \<times> world" where
  "send_notice config notice e st w =
     (let ep = str_or (endpoint config) ''https://app.checkend.io'';
          req = \<lparr>init_method = ''POST'',
                 init_headers = [(''Content-Type'', ''application/json''),
                                 (''Checkend-Ingestion-Key'', apiKey config)],
                 init_body = Some (JSON_stringify notice)\<rparr>
      in case call_fetch e (ep @ ''/ingest/v1/errors'') (Some req) w of
           (Inr resp, w') \<Rightarrow>
             (if debug config = Some True
              then console Log_level ''[Checkend] Edge: sent notification, status:''
                     [StatusArg (status resp)] st
              else st, w')
         | (Inl err, w') \<Rightarrow>
             (if debug config = Some True
              then console Error_level ''[Checkend] Edge: failed to send notification:''
                     [ErrorArg err] st
              else st, w'))"

text \<open>
  \<open>notify\<close> of the edge SDK. The promise it returns rejects with what it throws. The
  event is a new object; what \<open>applyBeforeSend\<close> returns is used only to see whether
  it is \<open>null\<close>, and the body is written from the notice afterwards, in the store as the
  callbacks left it.
\<close>

definition notify ::
  "js_Error \<Rightarrow> notify_options option \<Rightarrow> env \<Rightarrow> state \<Rightarrow> world \<Rightarrow> store
     \<Rightarrow> thrown + ((state \<times> world) \<times> store)" where
  "notify error options e st w h =
     (if \<not> isInitialized st
      then Inr ((console Warn_level ''[Checkend] Edge SDK: not initialized'' [] st, w), h)
      else
        case shouldIgnoreException error st of
          Inl err \<Rightarrow> Inl err
        | Inr ignored \<Rightarrow>
            if ignored then Inr ((st, w), h)
            else
              (case getConfig st of
                 Inl err \<Rightarrow> Inl err
               | Inr config \<Rightarrow>
                   if enableEdge config \<noteq> Some True then
                     Inr ((if debug config = Some True
                           then console Log_level
                                  ''[Checkend] Edge SDK disabled, skipping notification'' [] st
                           else st, w), h)
                   else
                     let notice = edge_notice error options config
                     in if beforeSend config = None
                        then Inr (send_notice config (notice h) e st w, h)
                        else
                          (case alloc (EventCell (edge_event error options)) h of
                             (event, h0) \<Rightarrow>
                               (case applyBeforeSend event h0 st of
                                  Inl err \<Rightarrow> Inl err
                                | Inr ((result, h'), st', calls) \<Rightarrow>
                                    if result = None then
                                      Inr ((if debug config = Some True
                                            then console Log_level
                                                   ''[Checkend] Edge: beforeSend returned null, skipping''
                                                   [] st'
                                            else st', w), h')
                                    else Inr (send_notice config (notice h') e st' w, h')))))"

section \<open>Configurations and states used in the examples\<close>

definition options_with_key :: "string \<Rightarrow> CheckendNextConfig" where
  "options_with_key k =
     \<lparr>apiKey = k, endpoint = None, environment = None, appName = None, revision = None,
      enableClient = None, enableServer = None, enableEdge = None, ignoredRoutes = None,
      ignoredExceptions = None, filterKeys = None, useDefaultFilterKeys = None,
      beforeSend = None, debug = None, logger = None, timeout = None, connectTimeout = None,
      maxQueueSize = None, shutdownTimeout = None\<rparr>"

text \<open>The module state before any call, and the state after \<open>init(options)\<close> from there.\<close>

definition fresh :: state where
  "fresh = \<lparr>globalConfig = None, configuredLogger = None, written = []\<rparr>"

definition state_after_init :: "CheckendNextConfig \<Rightarrow> state" where
  "state_after_init options =
     (case init options fresh of Inl e \<Rightarrow> fresh | Inr (cfg, st) \<Rightarrow> st)"

text \<open>An absent rule list has no rules.\<close>

definition rules_of :: "rule list option \<Rightarrow> rule list" where
  "rules_of x = (case x of None \<Rightarrow> [] | Some rs \<Rightarrow> rs)"

definition health_options :: CheckendNextConfig where
  "health_options =
     (options_with_key ''test-key'')\<lparr>ignoredRoutes := Some [StrRule ''/health'']\<rparr>"

text \<open>\<open>/^Error: ECONNRE/\<close>\<close>

definition econnre_pattern :: regexp where
  "econnre_pattern = RegExp (seq_of (Bol # map (\<lambda>c. Atom (Ch c)) ''Error: ECONNRE'')) False"

definition typeerror_options :: CheckendNextConfig where
  "typeerror_options =
     (options_with_key ''test-key'')\<lparr>ignoredExceptions := Some [StrRule ''TypeError'']\<rparr>"

definition econnre_options :: CheckendNextConfig where
  "econnre_options =
     (options_with_key ''test-key'')\<lparr>ignoredExceptions := Some [PatRule econnre_pattern]\<rparr>"

section \<open>Notions used in the statements about the callback chain\<close>

text \<open>
  The configured transforms as one sequence: a single callback is a sequence of one;
  \<open>None\<close> when no transform is configured.
\<close>

definition configured_callbacks :: "CheckendNextConfig \<Rightarrow> BeforeSendCallback list option" where
  "configured_callbacks config =
     (case beforeSend config of
        None \<Rightarrow> None
      | Some (Single cb) \<Rightarrow> Some [cb]
      | Some (Multiple cbs) \<Rightarrow> Some cbs)"

text \<open>
  One step of the fold the specification describes: a dropped event stays dropped, a
  callback that returns gives the next value, a callback that throws leaves the value.
  The value is a reference to an event object, or \<open>null\<close>, and it goes together with
  the store, which each callback leaves as it has changed it.
\<close>

fun chain_step :: "addr option \<times> store \<Rightarrow> BeforeSendCallback \<Rightarrow> addr option \<times> store" where
  "chain_step (None, h) cb = (None, h)"
| "chain_step (Some ev, h) cb =
     (case cb ev h of
        (Returns r, h') \<Rightarrow> (r, h')
      | (Throws err, h') \<Rightarrow> (Some ev, h'))"

text \<open>The sink the logger in force writes to.\<close>

fun sink_of :: "active_logger \<Rightarrow> sink" where
  "sink_of (Custom l) = ToLogger l"
| "sink_of (DefaultLogger dbg) = Console"

text \<open>
  Callbacks of the examples. \<open>(event) => ({...event, message: event.message + s})\<close>
  returns a new event object; one callback drops the event; one throws;
  \<open>(event) => { event.message = s; throw 'boom' }\<close> changes the event it was given and
  throws; \<open>(event) => { event.tags.push(t); return event }\<close> changes the array of tags
  in place. Called with a reference to anything else than an event, which
  \<open>applyBeforeSend\<close> does not do, they throw.
\<close>

definition add_to_message :: "string \<Rightarrow> BeforeSendCallback" where
  "add_to_message s =
     (\<lambda>a h. case event_at h a of
               None \<Rightarrow> (Throws (JStr ''TypeError''), h)
             | Some ev \<Rightarrow>
                 (case alloc (EventCell (ev\<lparr>message := message ev @ s\<rparr>)) h of
                    (b, h') \<Rightarrow> (Returns (Some b), h')))"

definition drop_event :: BeforeSendCallback where
  "drop_event = (\<lambda>a h. (Returns None, h))"

definition throwing :: BeforeSendCallback where
  "throwing = (\<lambda>a h. (Throws (JStr ''boom''), h))"

definition change_and_throw :: "string \<Rightarrow> BeforeSendCallback" where
  "change_and_throw s =
     (\<lambda>a h. case event_at h a of
               None \<Rightarrow> (Throws (JStr ''TypeError''), h)
             | Some ev \<Rightarrow> (Throws (JStr ''boom''), h[a := EventCell (ev\<lparr>message := s\<rparr>)]))"

definition push_tag :: "string \<Rightarrow> BeforeSendCallback" where
  "push_tag t =
     (\<lambda>a h. case event_at h a of
               None \<Rightarrow> (Throws (JStr ''TypeError''), h)
             | Some ev \<Rightarrow>
                 (case tags ev of
                    None \<Rightarrow> (Throws (JStr ''TypeError''), h)
                  | Some r \<Rightarrow>
                      (case cell_at h r of
                         Some (ValueCell (JArr items)) \<Rightarrow>
                           (Returns (Some a), h[r := ValueCell (JArr (items @ [JStr t]))])
                       | _ \<Rightarrow> (Throws (JStr ''TypeError''), h))))"

text \<open>An event of the examples, and the store that holds it, at address 0, alone.\<close>

definition msg_event :: CheckendEvent where
  "msg_event =
     \<lparr>errorClass = ''Error'', message = ''msg'', backtrace = [], context' = None,
      request = None, user = None, tags = None, fingerprint = None\<rparr>"

definition msg_store :: store where
  "msg_store = [EventCell msg_event]"

text \<open>
  What a call of \<open>applyBeforeSend\<close> returned, read in the store it left: the event
  returned, if any, and the lines written to the logger.
\<close>

definition returned_event ::
  "thrown + ((addr option \<times> store) \<times> state \<times> addr list) \<Rightarrow> CheckendEvent option" where
  "returned_event r =
     (case r of
        Inl err \<Rightarrow> None
      | Inr ((result, h), st, calls) \<Rightarrow>
          (case result of None \<Rightarrow> None | Some a \<Rightarrow> event_at h a))"

definition lines_written ::
  "thrown + ((addr option \<times> store) \<times> state \<times> addr list) \<Rightarrow> log_line list" where
  "lines_written r = (case r of Inl err \<Rightarrow> [] | Inr (rh, st, calls) \<Rightarrow> written st)"

definition chain_options :: "BeforeSendCallback list \<Rightarrow> CheckendNextConfig" where
  "chain_options cbs = (options_with_key ''test-key'')\<lparr>beforeSend := Some (Multiple cbs)\<rparr>"

section \<open>Notions used in the statements about \<open>init\<close>\<close>

text \<open>The line \<open>init\<close> writes when \<open>debug\<close> is on, for the merged configuration \<open>cfg\<close>.\<close>

definition init_debug_line :: "active_logger \<Rightarrow> CheckendNextConfig \<Rightarrow> log_line" where
  "init_debug_line lg cfg =
     \<lparr>line_sink = sink_of lg, line_level = Debug_level,
      line_message = ''[Checkend] Initialized with config:'',
      line_args = [ConfigArg (cfg\<lparr>apiKey := take 8 (apiKey cfg) @ ''...''\<rparr>)]\<rparr>"

text \<open>The logger \<open>init\<close> puts in force.\<close>

definition logger_for :: "CheckendNextConfig \<Rightarrow> active_logger" where
  "logger_for cfg =
     (case logger cfg of
        Some l \<Rightarrow> Custom l
      | None \<Rightarrow> DefaultLogger (debug cfg = Some True))"

definition debug_options :: "string \<Rightarrow> CheckendNextConfig" where
  "debug_options k = (options_with_key k)\<lparr>debug := Some True\<rparr>"

section \<open>Notions used in the statements about the redactor\<close>

text \<open>A filter key is plain when it holds no syntax character of the pattern language.\<close>

definition plain :: "string \<Rightarrow> bool" where
  "plain k = list_all (\<lambda>c. c \<notin> set syntax_chars) k"

text \<open>The pattern that matches the characters of \<open>k\<close> one after the other.\<close>

definition literal :: "string \<Rightarrow> regex" where
  "literal k = seq_of (map (\<lambda>c. Atom (Ch c)) k)"

text \<open>
  \<open>literally ic k s\<close>: \<open>s\<close> starts with the characters of \<open>k\<close>, compared after
  \<open>canonicalize\<close> when \<open>ic\<close> is set. \<open>occurs ic k s\<close>: they stand somewhere in \<open>s\<close>.
\<close>

fun literally :: "bool \<Rightarrow> string \<Rightarrow> string \<Rightarrow> bool" where
  "literally ic [] s = True"
| "literally ic (c # k) [] = False"
| "literally ic (c # k) (x # s) = (atom_ok ic (Ch c) x \<and> literally ic k s)"

fun occurs :: "bool \<Rightarrow> string \<Rightarrow> string \<Rightarrow> bool" where
  "occurs ic k [] = (k = [])"
| "occurs ic k (x # s) = (literally ic k (x # s) \<or> occurs ic k s)"

text \<open>
  The keys of a JavaScript object are pairwise distinct; \<open>well_formed\<close> says so for a
  value and everything in it.
\<close>

fun well_formed :: "jsval \<Rightarrow> bool"
  and well_formed_items :: "jsval list \<Rightarrow> bool"
  and well_formed_entries :: "(string \<times> jsval) list \<Rightarrow> bool"
where
  "well_formed (JArr items) = well_formed_items items"
| "well_formed (JObj entries) = (distinct (map fst entries) \<and> well_formed_entries entries)"
| "well_formed JUndefined = True"
| "well_formed JNull = True"
| "well_formed (JBool b) = True"
| "well_formed (JNum n) = True"
| "well_formed (JStr s) = True"
| "well_formed_items [] = True"
| "well_formed_items (v # vs) = (well_formed v \<and> well_formed_items vs)"
| "well_formed_entries [] = True"
| "well_formed_entries ((k, v) # es) = (well_formed v \<and> well_formed_entries es)"

text \<open>
  A path into a value: property names and array indices. The value at a path, when
  every step exists; the number of steps is the depth at which \<open>sanitizeValue\<close> meets it.
\<close>

datatype step = Key string | Index nat

fun lookup_path :: "jsval \<Rightarrow> step list \<Rightarrow> jsval option" where
  "lookup_path v [] = Some v"
| "lookup_path (JObj entries) (Key k # p) =
     (case map_of entries k of None \<Rightarrow> None | Some w \<Rightarrow> lookup_path w p)"
| "lookup_path (JArr items) (Index i # p) =
     (if i < length items then lookup_path (items ! i) p else None)"
| "lookup_path v (s # p) = None"

text \<open>The keys along a path.\<close>

fun path_keys :: "step list \<Rightarrow> string list" where
  "path_keys [] = []"
| "path_keys (Key k # p) = k # path_keys p"
| "path_keys (Index i # p) = path_keys p"

text \<open>The values that are neither strings nor arrays nor objects.\<close>

fun scalar :: "jsval \<Rightarrow> bool" where
  "scalar JUndefined = True"
| "scalar JNull = True"
| "scalar (JBool b) = True"
| "scalar (JNum n) = True"
| "scalar v = False"

text \<open>How deep arrays and objects are nested in a value.\<close>

fun height :: "jsval \<Rightarrow> nat"
  and height_items :: "jsval list \<Rightarrow> nat"
  and height_entries :: "(string \<times> jsval) list \<Rightarrow> nat"
where
  "height (JArr items) = Suc (height_items items)"
| "height (JObj entries) = Suc (height_entries entries)"
| "height JUndefined = 0"
| "height JNull = 0"
| "height (JBool b) = 0"
| "height (JNum n) = 0"
| "height (JStr s) = 0"
| "height_items [] = 0"
| "height_items (v # vs) = max (height v) (height_items vs)"
| "height_entries [] = 0"
| "height_entries ((k, v) # es) = max (height v) (height_entries es)"

text \<open>What the loop over the entries of an object stores under a key.\<close>

definition redacted :: "regexp \<Rightarrow> int \<Rightarrow> nat \<Rightarrow> string \<Rightarrow> jsval \<Rightarrow> jsval" where
  "redacted pat maxDepth d k v =
     (if regexp_test pat k then JStr ''[FILTERED]'' else sanitizeValue pat maxDepth v d)"

text \<open>The pattern compiled from plain filter keys: one alternative for each key.\<close>

definition keys_pattern :: "string list \<Rightarrow> regexp" where
  "keys_pattern keys = RegExp (alt_of (map literal keys)) True"

text \<open>The effective depth limit: \<open>maxDepth = 10\<close> when the argument is absent.\<close>

definition depth_limit :: "int option \<Rightarrow> int" where
  "depth_limit arg = (case arg of None \<Rightarrow> 10 | Some m \<Rightarrow> m)"

text \<open>Values and configurations of the examples.\<close>

definition user_data :: jsval where
  "user_data =
     JObj [(''user'', JObj [(''name'', JStr ''john''), (''password'', JStr ''secret123'')])]"

definition auth_data :: jsval where
  "auth_data = JObj [(''auth'', JObj [(''password'', JStr ''x'')])]"

definition paren_options :: CheckendNextConfig where
  "paren_options = (options_with_key ''test-key'')\<lparr>filterKeys := Some [''('']\<rparr>"


text \<open>\<open>nested n v\<close>: \<open>v\<close> wrapped \<open>n\<close> times as \<open>{nested: ...}\<close>.\<close>

fun nested :: "nat \<Rightarrow> jsval \<Rightarrow> jsval" where
  "nested 0 v = v"
| "nested (Suc n) v = JObj [(''nested'', nested n v)]"

definition password_only_options :: CheckendNextConfig where
  "password_only_options =
     (options_with_key ''test-key'')
       \<lparr>filterKeys := Some [''password''], useDefaultFilterKeys := Some False\<rparr>"

text \<open>An object whose only key is the password key in capitals, and nested arrays.\<close>

definition shout_data :: jsval where
  "shout_data = JObj [(''PASSWORD'', JStr ''x'')]"

definition array_data :: jsval where
  "array_data = JArr [JArr [JNum 1], JNum 2]"

section \<open>Notions used in the statements about the stack trace parser\<close>



section \<open>Notions used in the statements about the capture harness\<close>

text \<open>The classes of the notices captured after a call of \<open>notify\<close>; none when it threw.\<close>

definition captured_classes :: "thrown + ((state \<times> world) \<times> store) \<Rightarrow> jsval list" where
  "captured_classes r =
     (case r of
        Inl err \<Rightarrow> []
      | Inr ((st, w), h) \<Rightarrow> map captured_errorClass (capturedNotices w))"

text \<open>Their tags.\<close>

definition captured_tag_lists :: "thrown + ((state \<times> world) \<times> store) \<Rightarrow> jsval list" where
  "captured_tag_lists r =
     (case r of
        Inl err \<Rightarrow> []
      | Inr ((st, w), h) \<Rightarrow> map captured_tags (capturedNotices w))"

text \<open>An active harness without notices, surroundings, and errors of the examples.\<close>

definition active_world :: world where
  "active_world =
     \<lparr>capturedNotices = [], isTestMode = True, originalFetch = None,
      global_fetch = Some MockFetch\<rparr>"

definition test_env :: env where
  "test_env = \<lparr>has_window = False, now = 0, fresh_id = ''0-abc''\<rparr>"

definition harness_options :: CheckendNextConfig where
  "harness_options =
     (options_with_key ''test-api-key'')
       \<lparr>endpoint := Some ''https://test.checkend.io'', environment := Some ''test'',
        debug := Some False\<rparr>"

text \<open>
  The store of a caller that holds the array \<open>['validation']\<close> at address 0, and options
  whose tags are that array.
\<close>

definition tagged_store :: store where
  "tagged_store = [ValueCell (JArr [JStr ''validation''])]"

definition tagged_options :: notify_options where
  "tagged_options =
     \<lparr>opt_context = None, opt_request = None, opt_user = None,
      opt_tags = Some 0, opt_fingerprint = Some ''fp-1''\<rparr>"

definition pushing_options :: CheckendNextConfig where
  "pushing_options = harness_options\<lparr>beforeSend := Some (Single (push_tag ''extra''))\<rparr>"

section \<open>Facts about strings\<close>

lemma startsWith_iff: "startsWith s p \<longleftrightarrow> (\<exists>t. s = p @ t)"
  by (induction s p rule: startsWith.induct) auto

lemma includes_str_iff: "includes_str s p \<longleftrightarrow> (\<exists>a b. s = a @ p @ b)"
proof (induction s)
  case Nil
  then show ?case by auto
next
  case (Cons c cs)
  show ?case
  proof
    assume "includes_str (c # cs) p"
    then consider "startsWith (c # cs) p" | "includes_str cs p" by auto
    then show "\<exists>a b. c # cs = a @ p @ b"
    proof cases
      case 1
      then obtain t where "c # cs = p @ t" by (auto simp: startsWith_iff)
      then have "c # cs = [] @ p @ t" by simp
      then show ?thesis by blast
    next
      case 2
      then obtain a b where "cs = a @ p @ b" using Cons.IH by auto
      then have "c # cs = (c # a) @ p @ b" by simp
      then show ?thesis by blast
    qed
  next
    assume "\<exists>a b. c # cs = a @ p @ b"
    then obtain a b where ab: "c # cs = a @ p @ b" by auto
    show "includes_str (c # cs) p"
    proof (cases a)
      case Nil
      with ab have "startsWith (c # cs) p" by (auto simp: startsWith_iff)
      then show ?thesis by simp
    next
      case (Cons x a')
      with ab have "cs = a' @ p @ b" by simp
      then have "includes_str cs p" using Cons.IH by blast
      then show ?thesis by simp
    qed
  qed
qed

section \<open>The configuration store\<close>

lemma init_live:
  assumes "apiKey options \<noteq> []"
  shows "globalConfig (state_after_init options) = Some (merge_defaults options)"
  using assms
  by (simp add: state_after_init_def init_def Let_def log_def fresh_def
           split: option.splits active_logger.splits)

section \<open>The matcher: ignored routes\<close>

lemma route_rule_iff:
  "route_rule route r \<longleftrightarrow>
     (case r of
        StrRule p \<Rightarrow> route = p \<or> (\<exists>t. route = p @ t)
      | PatRule re \<Rightarrow> regexp_test re route)"
  by (cases r) (simp_all add: startsWith_iff)

text \<open>
  C6. With a live configuration \<open>shouldIgnoreRoute\<close> returns, and its result is true
  exactly when some rule of the ignored-route list matches: a string rule that equals the
  path or is a prefix of it, or a pattern rule that tests true against the path. An absent
  or empty list has no rule, so the result is false.
\<close>

theorem shouldIgnoreRoute_rules:
  assumes "globalConfig st = Some config"
  shows "shouldIgnoreRoute route st =
           Inr (\<exists>r \<in> set (rules_of (ignoredRoutes config)).
                  case r of
                    StrRule p \<Rightarrow> route = p \<or> (\<exists>t. route = p @ t)
                  | PatRule re \<Rightarrow> regexp_test re route)"
  using assms
  by (auto simp: shouldIgnoreRoute_def getConfig_def rules_of_def list_ex_iff route_rule_iff
           split: option.splits)

text \<open>
  With the rules \<open>['/health']\<close> both \<open>/health\<close> and \<open>/healthcheck\<close> are ignored, and
  \<open>/api\<close> is not; without a rule list nothing is ignored.
\<close>

theorem shouldIgnoreRoute_rules_witness:
  "globalConfig (state_after_init health_options) = Some (merge_defaults health_options)
   \<and> shouldIgnoreRoute ''/health'' (state_after_init health_options) = Inr True
   \<and> shouldIgnoreRoute ''/healthcheck'' (state_after_init health_options) = Inr True
   \<and> shouldIgnoreRoute ''/api'' (state_after_init health_options) = Inr False
   \<and> shouldIgnoreRoute ''/health'' (state_after_init (options_with_key ''test-key''))
       = Inr False"
proof -
  have live: "globalConfig (state_after_init health_options)
                = Some (merge_defaults health_options)"
    by (rule init_live) (simp add: health_options_def options_with_key_def)
  have live0: "globalConfig (state_after_init (options_with_key ''test-key''))
                 = Some (merge_defaults (options_with_key ''test-key''))"
    by (rule init_live) (simp add: options_with_key_def)
  have rs: "rules_of (ignoredRoutes (merge_defaults health_options)) = [StrRule ''/health'']"
    by (simp add: merge_defaults_def health_options_def options_with_key_def rules_of_def)
  have rs0: "rules_of (ignoredRoutes (merge_defaults (options_with_key ''test-key''))) = []"
    by (simp add: merge_defaults_def options_with_key_def rules_of_def)
  show ?thesis
    using live shouldIgnoreRoute_rules [OF live, of "''/health''"]
      shouldIgnoreRoute_rules [OF live, of "''/healthcheck''"]
      shouldIgnoreRoute_rules [OF live, of "''/api''"]
      shouldIgnoreRoute_rules [OF live0, of "''/health''"]
    by (simp add: rs rs0)
qed

section \<open>The matcher: ignored exceptions\<close>

lemma exception_rule_iff:
  "exception_rule error errorString r \<longleftrightarrow>
     (case r of
        StrRule p \<Rightarrow> err_name error = p \<or> (\<exists>a b. err_message error = a @ p @ b)
      | PatRule re \<Rightarrow> regexp_test re errorString)"
  by (cases r) (simp_all add: includes_str_iff)

text \<open>
  C7. With a live configuration \<open>shouldIgnoreException\<close> returns, and its result is
  true exactly when some rule of the ignored-exception list matches: a string rule that
  equals the error's name or occurs in its message, or a pattern rule that tests true against
  \<open>name: message\<close>. An absent or empty list has no rule, so the result is false.
\<close>

theorem shouldIgnoreException_rules:
  assumes "globalConfig st = Some config"
  shows "shouldIgnoreException error st =
           Inr (\<exists>r \<in> set (rules_of (ignoredExceptions config)).
                  case r of
                    StrRule p \<Rightarrow> err_name error = p \<or> (\<exists>a b. err_message error = a @ p @ b)
                  | PatRule re \<Rightarrow>
                      regexp_test re (err_name error @ '': '' @ err_message error))"
proof (cases "ignoredExceptions config")
  case None
  with assms show ?thesis
    by (simp add: shouldIgnoreException_def getConfig_def rules_of_def)
next
  case (Some rules)
  have "list_ex (exception_rule error (err_name error @ '': '' @ err_message error)) rules
          = (\<exists>r \<in> set rules.
               case r of
                 StrRule p \<Rightarrow> err_name error = p \<or> (\<exists>a b. err_message error = a @ p @ b)
               | PatRule re \<Rightarrow>
                   regexp_test re (err_name error @ '': '' @ err_message error))"
    unfolding list_ex_iff exception_rule_iff ..
  moreover have "shouldIgnoreException error st =
      Inr (rules \<noteq> [] \<and>
           list_ex (exception_rule error (err_name error @ '': '' @ err_message error)) rules)"
    using assms Some by (simp add: shouldIgnoreException_def getConfig_def Let_def)
  ultimately show ?thesis
    using Some by (cases rules) (simp_all add: rules_of_def)
qed

lemma econnre_source: "new_RegExp ''^Error: ECONNRE'' False = Inr econnre_pattern"
  by code_simp

lemma econnre_tests:
  "regexp_test econnre_pattern ''Error: ECONNRESET''"
  "\<not> regexp_test econnre_pattern ''Error: Generic error''"
  by code_simp+

text \<open>
  The rules \<open>['TypeError']\<close> ignore a \<open>TypeError\<close>; the rules
  \<open>[/^Error: ECONNRE/]\<close> ignore an \<open>Error\<close> with the message \<open>ECONNRESET\<close> and not
  one with the message \<open>Generic error\<close>; without rules nothing is ignored.
\<close>

theorem shouldIgnoreException_rules_witness:
  "globalConfig (state_after_init typeerror_options) = Some (merge_defaults typeerror_options)
   \<and> globalConfig (state_after_init econnre_options) = Some (merge_defaults econnre_options)
   \<and> shouldIgnoreException (JsError ''TypeError'' ''bad'' None)
        (state_after_init typeerror_options) = Inr True
   \<and> shouldIgnoreException (JsError ''Error'' ''ECONNRESET'' None)
        (state_after_init econnre_options) = Inr True
   \<and> shouldIgnoreException (JsError ''Error'' ''Generic error'' None)
        (state_after_init econnre_options) = Inr False
   \<and> shouldIgnoreException (JsError ''Error'' ''Generic error'' None)
        (state_after_init (options_with_key ''test-key'')) = Inr False"
proof -
  have l1: "globalConfig (state_after_init typeerror_options)
              = Some (merge_defaults typeerror_options)"
    by (rule init_live) (simp add: typeerror_options_def options_with_key_def)
  have l2: "globalConfig (state_after_init econnre_options)
              = Some (merge_defaults econnre_options)"
    by (rule init_live) (simp add: econnre_options_def options_with_key_def)
  have l3: "globalConfig (state_after_init (options_with_key ''test-key''))
              = Some (merge_defaults (options_with_key ''test-key''))"
    by (rule init_live) (simp add: options_with_key_def)
  have r1: "rules_of (ignoredExceptions (merge_defaults typeerror_options))
              = [StrRule ''TypeError'']"
    by (simp add: merge_defaults_def typeerror_options_def options_with_key_def rules_of_def)
  have r2: "rules_of (ignoredExceptions (merge_defaults econnre_options))
              = [PatRule econnre_pattern]"
    by (simp add: merge_defaults_def econnre_options_def options_with_key_def rules_of_def)
  have r3: "rules_of (ignoredExceptions (merge_defaults (options_with_key ''test-key''))) = []"
    by (simp add: merge_defaults_def options_with_key_def rules_of_def)
  show ?thesis
    using l1 l2
      shouldIgnoreException_rules [OF l1, of "JsError ''TypeError'' ''bad'' None"]
      shouldIgnoreException_rules [OF l2, of "JsError ''Error'' ''ECONNRESET'' None"]
      shouldIgnoreException_rules [OF l2, of "JsError ''Error'' ''Generic error'' None"]
      shouldIgnoreException_rules [OF l3, of "JsError ''Error'' ''Generic error'' None"]
    by (simp add: r1 r2 r3 econnre_tests)
qed

section \<open>The callback chain\<close>

lemma fold_dropped: "foldl chain_step (None, h) cbs = (None, h)"
  by (induction cbs) simp_all

lemma loop_result: "fst (callbacks_loop cbs rh st calls) = foldl chain_step rh cbs"
proof (induction cbs arbitrary: rh st calls)
  case Nil
  then show ?case by simp
next
  case (Cons cb cbs)
  obtain r h where rh: "rh = (r, h)" by (cases rh)
  show ?case
  proof (cases r)
    case None
    with rh show ?thesis by (simp add: fold_dropped)
  next
    case (Some ev)
    obtain out h' where c: "cb ev h = (out, h')" by (cases "cb ev h")
    show ?thesis using Cons.IH Some rh c by (cases out) simp_all
  qed
qed

lemma loop_append:
  "callbacks_loop (pre @ post) rh st calls =
     (case callbacks_loop pre rh st calls of (rh1, st1, calls1) \<Rightarrow> callbacks_loop post rh1 st1 calls1)"
proof (induction pre arbitrary: rh st calls)
  case Nil
  then show ?case by simp
next
  case (Cons cb pre)
  obtain r h where rh: "rh = (r, h)" by (cases rh)
  show ?case
  proof (cases r)
    case None
    with rh show ?thesis by (cases post) simp_all
  next
    case (Some ev)
    obtain out h' where c: "cb ev h = (out, h')" by (cases "cb ev h")
    show ?thesis using Cons.IH Some rh c by (cases out) simp_all
  qed
qed

lemma loop_calls_live:
  "callbacks_loop cbs rh st calls = ((Some e, h'), st', calls') \<Longrightarrow>
     length calls' = length calls + length cbs"
proof (induction cbs arbitrary: rh st calls)
  case Nil
  then show ?case by simp
next
  case (Cons cb cbs)
  obtain r h where rh: "rh = (r, h)" by (cases rh)
  show ?case
  proof (cases r)
    case None
    with Cons.prems rh show ?thesis by simp
  next
    case (Some ev)
    obtain out h1 where c: "cb ev h = (out, h1)" by (cases "cb ev h")
    show ?thesis
    proof (cases out)
      case (Returns r1)
      with Cons.prems rh Some c
      have "callbacks_loop cbs (r1, h1) st (calls @ [ev]) = ((Some e, h'), st', calls')" by simp
      from Cons.IH [OF this] show ?thesis by simp
    next
      case (Throws err)
      with Cons.prems rh Some c
      have "callbacks_loop cbs (Some ev, h1)
              (log Error_level ''beforeSend callback threw an error:'' [ThrownArg err] st)
              (calls @ [ev]) = ((Some e, h'), st', calls')"
        by simp
      from Cons.IH [OF this] show ?thesis by simp
    qed
  qed
qed

lemma applyBeforeSend_loop:
  assumes "globalConfig st = Some config" and "configured_callbacks config = Some cbs"
  shows "applyBeforeSend ev h st = Inr (callbacks_loop cbs (Some ev, h) st [])"
  using assms
  by (auto simp: applyBeforeSend_def getConfig_def configured_callbacks_def
           split: option.splits beforeSend_option.splits)

text \<open>
  C4. With a live configuration: without a configured transform \<open>applyBeforeSend\<close> returns
  the event unchanged and calls nothing; with a configured sequence its result is the left
  fold of the callbacks from the input event, each receiving what the one before it
  returned, in the store as the one before it left it; and when the callbacks before some
  callback leave an event \<open>e\<close> and that callback returns \<open>null\<close> on \<open>e\<close>, the result
  is \<open>null\<close> and the calls made are those up to and including that callback, so none
  after it is invoked.
\<close>

theorem applyBeforeSend_fold:
  assumes "globalConfig st = Some config"
  shows "(beforeSend config = None \<longrightarrow> applyBeforeSend ev h st = Inr ((Some ev, h), st, []))
       \<and> (\<forall>cbs. configured_callbacks config = Some cbs \<longrightarrow>
            (\<exists>st' calls.
                applyBeforeSend ev h st = Inr (foldl chain_step (Some ev, h) cbs, st', calls))
          \<and> (\<forall>pre cb post e h1 h2. cbs = pre @ cb # post
                \<and> foldl chain_step (Some ev, h) pre = (Some e, h1)
                \<and> cb e h1 = (Returns None, h2) \<longrightarrow>
                (\<exists>st' calls. applyBeforeSend ev h st = Inr ((None, h2), st', calls)
                    \<and> length calls = length pre + 1)))"
proof (intro conjI allI impI)
  assume "beforeSend config = None"
  with assms show "applyBeforeSend ev h st = Inr ((Some ev, h), st, [])"
    by (simp add: applyBeforeSend_def getConfig_def)
next
  fix cbs
  assume cbs: "configured_callbacks config = Some cbs"
  obtain rh st' calls where l: "callbacks_loop cbs (Some ev, h) st [] = (rh, st', calls)"
    by (cases "callbacks_loop cbs (Some ev, h) st []") auto
  have "rh = foldl chain_step (Some ev, h) cbs"
    using loop_result [of cbs "(Some ev, h)" st "[]"] l by simp
  with l show "\<exists>st' calls.
      applyBeforeSend ev h st = Inr (foldl chain_step (Some ev, h) cbs, st', calls)"
    using applyBeforeSend_loop [OF assms cbs] by simp
next
  fix cbs pre cb post e h1 h2
  assume cbs: "configured_callbacks config = Some cbs"
    and c: "cbs = pre @ cb # post \<and> foldl chain_step (Some ev, h) pre = (Some e, h1)
              \<and> cb e h1 = (Returns None, h2)"
  obtain rh1 st1 calls1 where l: "callbacks_loop pre (Some ev, h) st [] = (rh1, st1, calls1)"
    by (cases "callbacks_loop pre (Some ev, h) st []") auto
  have r1: "rh1 = (Some e, h1)" using loop_result [of pre "(Some ev, h)" st "[]"] l c by simp
  have n: "length calls1 = length pre"
    using loop_calls_live [of pre "(Some ev, h)" st "[]"] l r1 by simp
  have "callbacks_loop cbs (Some ev, h) st [] = callbacks_loop post (None, h2) st1 (calls1 @ [e])"
    using c l r1 by (simp add: loop_append)
  also have "\<dots> = ((None, h2), st1, calls1 @ [e])" by (cases post) simp_all
  finally show "\<exists>st' calls. applyBeforeSend ev h st = Inr ((None, h2), st', calls)
      \<and> length calls = length pre + 1"
    using applyBeforeSend_loop [OF assms cbs] n by simp
qed

text \<open>
  The chain that appends \<open>1\<close> and then \<open>2\<close> turns the message \<open>msg\<close> into \<open>msg12\<close>:
  the event returned is the second new object, and the event passed in is as it was; in
  the chain \<open>[drop, append 2]\<close> the second callback is not invoked; without a transform
  the event comes back unchanged.
\<close>

theorem applyBeforeSend_fold_witness:
  "globalConfig (state_after_init (chain_options [add_to_message ''1'', add_to_message ''2'']))
     = Some (merge_defaults (chain_options [add_to_message ''1'', add_to_message ''2'']))
   \<and> (\<exists>h' st' calls.
         applyBeforeSend 0 msg_store
           (state_after_init (chain_options [add_to_message ''1'', add_to_message ''2'']))
         = Inr ((Some 2, h'), st', calls)
       \<and> event_at h' 2 = Some (msg_event\<lparr>message := ''msg12''\<rparr>)
       \<and> event_at h' 0 = Some msg_event)
   \<and> (\<exists>st' calls.
         applyBeforeSend 0 msg_store
           (state_after_init (chain_options [drop_event, add_to_message ''2'']))
         = Inr ((None, msg_store), st', calls) \<and> length calls = 1)
   \<and> applyBeforeSend 0 msg_store (state_after_init (options_with_key ''test-key''))
       = Inr ((Some 0, msg_store), state_after_init (options_with_key ''test-key''), [])"
proof -
  let ?c12 = "chain_options [add_to_message ''1'', add_to_message ''2'']"
  let ?cd = "chain_options [drop_event, add_to_message ''2'']"
  let ?c0 = "options_with_key ''test-key''"
  let ?h = "[EventCell msg_event, EventCell (msg_event\<lparr>message := ''msg1''\<rparr>),
             EventCell (msg_event\<lparr>message := ''msg12''\<rparr>)]"
  have l12: "globalConfig (state_after_init ?c12) = Some (merge_defaults ?c12)"
    by (rule init_live) (simp add: chain_options_def options_with_key_def)
  have ld: "globalConfig (state_after_init ?cd) = Some (merge_defaults ?cd)"
    by (rule init_live) (simp add: chain_options_def options_with_key_def)
  have l0: "globalConfig (state_after_init ?c0) = Some (merge_defaults ?c0)"
    by (rule init_live) (simp add: options_with_key_def)
  have c12: "configured_callbacks (merge_defaults ?c12)
               = Some [add_to_message ''1'', add_to_message ''2'']"
    by (simp add: configured_callbacks_def merge_defaults_def chain_options_def)
  have cd: "configured_callbacks (merge_defaults ?cd) = Some [drop_event, add_to_message ''2'']"
    by (simp add: configured_callbacks_def merge_defaults_def chain_options_def)
  have c0: "beforeSend (merge_defaults ?c0) = None"
    by (simp add: merge_defaults_def options_with_key_def)
  have f12: "foldl chain_step (Some 0, msg_store) [add_to_message ''1'', add_to_message ''2'']
               = (Some 2, ?h)"
    by (simp add: add_to_message_def event_at_def cell_at_def alloc_def msg_store_def
                  msg_event_def)
  have e: "event_at ?h 2 = Some (msg_event\<lparr>message := ''msg12''\<rparr>)"
    "event_at ?h 0 = Some msg_event"
    by (simp_all add: event_at_def cell_at_def)
  have "\<exists>st' calls. applyBeforeSend 0 msg_store (state_after_init ?c12)
             = Inr ((Some 2, ?h), st', calls)"
    using applyBeforeSend_fold [OF l12, of 0 msg_store] c12 f12 by simp
  with e have a: "\<exists>h' st' calls. applyBeforeSend 0 msg_store (state_after_init ?c12)
             = Inr ((Some 2, h'), st', calls)
           \<and> event_at h' 2 = Some (msg_event\<lparr>message := ''msg12''\<rparr>)
           \<and> event_at h' 0 = Some msg_event"
    by blast
  have "\<exists>st' calls. applyBeforeSend 0 msg_store (state_after_init ?cd)
               = Inr ((None, msg_store), st', calls)
             \<and> length calls = length ([] :: BeforeSendCallback list) + 1"
    by (rule applyBeforeSend_fold [OF ld, of 0 msg_store, THEN conjunct2, rule_format, OF cd,
          THEN conjunct2, rule_format,
          of "[]" drop_event "[add_to_message ''2'']" 0 msg_store msg_store])
       (simp add: drop_event_def)
  then have b: "\<exists>st' calls. applyBeforeSend 0 msg_store (state_after_init ?cd)
               = Inr ((None, msg_store), st', calls) \<and> length calls = 1"
    by simp
  have c: "applyBeforeSend 0 msg_store (state_after_init ?c0)
             = Inr ((Some 0, msg_store), state_after_init ?c0, [])"
    using applyBeforeSend_fold [OF l0, of 0 msg_store] c0 by simp
  show ?thesis using l12 a b c by simp
qed

lemma log_keeps:
  "globalConfig (log lv m as st) = globalConfig st"
  "configuredLogger (log lv m as st) = configuredLogger st"
proof -
  have "globalConfig (logger_call lg lv m' as st) = globalConfig st
      \<and> configuredLogger (logger_call lg lv m' as st) = configuredLogger st" for lg m'
    by (cases lg) simp_all
  then show "globalConfig (log lv m as st) = globalConfig st"
    and "configuredLogger (log lv m as st) = configuredLogger st"
    by (simp_all add: log_def split: option.splits)
qed

lemma loop_keeps:
  "callbacks_loop cbs rh st calls = (rh', st', calls') \<Longrightarrow>
     globalConfig st' = globalConfig st \<and> configuredLogger st' = configuredLogger st"
proof (induction cbs arbitrary: rh st calls)
  case Nil
  then show ?case by simp
next
  case (Cons cb cbs)
  obtain r h where rh: "rh = (r, h)" by (cases rh)
  show ?case
  proof (cases r)
    case None
    with Cons.prems rh show ?thesis by simp
  next
    case (Some ev)
    obtain out h1 where c: "cb ev h = (out, h1)" by (cases "cb ev h")
    show ?thesis
    proof (cases out)
      case (Returns r1)
      with Some Cons rh c show ?thesis by simp
    next
      case (Throws err)
      with Some Cons.prems rh c
      have "callbacks_loop cbs (Some ev, h1)
              (log Error_level ''beforeSend callback threw an error:'' [ThrownArg err] st)
              (calls @ [ev]) = (rh', st', calls')"
        by simp
      from Cons.IH [OF this] show ?thesis by (simp add: log_keeps)
    qed
  qed
qed

lemma logger_call_error:
  "written (logger_call lg Error_level m as st) =
     written st @ [\<lparr>line_sink = sink_of lg, line_level = Error_level, line_message = m,
                    line_args = as\<rparr>]"
  by (cases lg) simp_all

lemma init_logger:
  assumes "apiKey options \<noteq> []"
  shows "configuredLogger (state_after_init options) =
           Some (case logger options of
                   Some l \<Rightarrow> Custom l
                 | None \<Rightarrow> DefaultLogger (debug options = Some True))"
  using assms
  by (auto simp: state_after_init_def init_def Let_def log_def fresh_def merge_defaults_def
                 or_default_def
           split: option.splits active_logger.splits)

text \<open>
  A callback that throws is caught. With a live configuration and its logger: when the
  callbacks before some callback leave a reference \<open>e\<close> and that callback throws on
  \<open>e\<close>, \<open>applyBeforeSend\<close> still returns, one line at error level with the thrown value
  is written to the logger, and the remaining callbacks run from the same reference
  \<open>e\<close>, in the store as the throwing callback left it.
\<close>

lemma throwing_callback_caught:
  assumes "globalConfig st = Some config"
    and "configuredLogger st = Some lg"
    and "configured_callbacks config = Some (pre @ cb # post)"
    and "callbacks_loop pre (Some ev, h) st [] = ((Some e, h1), st1, calls1)"
    and "cb e h1 = (Throws x, h2)"
  shows "\<exists>st2. written st2 = written st1 @
              [\<lparr>line_sink = sink_of lg, line_level = Error_level,
                line_message = ''[Checkend] beforeSend callback threw an error:'',
                line_args = [ThrownArg x]\<rparr>]
           \<and> applyBeforeSend ev h st = Inr (callbacks_loop post (Some e, h2) st2 (calls1 @ [e]))"
proof -
  let ?st2 = "log Error_level ''beforeSend callback threw an error:'' [ThrownArg x] st1"
  have lg1: "configuredLogger st1 = Some lg"
    using loop_keeps [OF assms(4)] assms(2) by simp
  have w: "written ?st2 = written st1 @
              [\<lparr>line_sink = sink_of lg, line_level = Error_level,
                line_message = ''[Checkend] beforeSend callback threw an error:'',
                line_args = [ThrownArg x]\<rparr>]"
    using lg1 by (simp add: log_def logger_call_error)
  have "callbacks_loop (pre @ cb # post) (Some ev, h) st []
          = callbacks_loop (cb # post) (Some e, h1) st1 calls1"
    using assms(4) by (simp add: loop_append)
  also have "\<dots> = callbacks_loop post (Some e, h2) ?st2 (calls1 @ [e])"
    using assms(5) by simp
  finally have a: "applyBeforeSend ev h st
                     = Inr (callbacks_loop post (Some e, h2) ?st2 (calls1 @ [e]))"
    using applyBeforeSend_loop [OF assms(1) assms(3)] by simp
  show ?thesis using w a by blast
qed

lemma chain_state:
  "globalConfig (state_after_init (chain_options cbs)) = Some (merge_defaults (chain_options cbs))"
  "configuredLogger (state_after_init (chain_options cbs)) = Some (DefaultLogger False)"
  "written (state_after_init (chain_options cbs)) = []"
  "configured_callbacks (merge_defaults (chain_options cbs)) = Some cbs"
proof -
  have key: "apiKey (chain_options cbs) \<noteq> []"
    by (simp add: chain_options_def options_with_key_def)
  show "globalConfig (state_after_init (chain_options cbs))
          = Some (merge_defaults (chain_options cbs))"
    by (rule init_live [OF key])
  show "configuredLogger (state_after_init (chain_options cbs)) = Some (DefaultLogger False)"
    using init_logger [OF key] by (simp add: chain_options_def options_with_key_def)
  show "written (state_after_init (chain_options cbs)) = []"
    using key
    by (simp add: state_after_init_def init_def Let_def fresh_def merge_defaults_def
                  chain_options_def options_with_key_def or_default_def)
  show "configured_callbacks (merge_defaults (chain_options cbs)) = Some cbs"
    by (simp add: configured_callbacks_def merge_defaults_def chain_options_def)
qed

text \<open>
  C5. The code does not do what the claim says when a callback changes the event it was
  given and then throws. For the event with the message \<open>msg\<close> and the single callback
  \<open>(event) => { event.message = 'changed'; throw 'boom' }\<close>, \<open>applyBeforeSend\<close>
  returns, and the throw is logged on the console at error level, but the event it
  returns has the message \<open>changed\<close>, not the message \<open>msg\<close> that was current before
  the callback ran; and a callback that follows in the chain is given that changed event,
  so that appending \<open>2\<close> yields \<open>changed2\<close>. A callback that throws without
  having changed anything is skipped as the claim says: the chain
  \<open>[append 1, throw, append 2]\<close> yields \<open>msg12\<close>.
\<close>

theorem applyBeforeSend_changed_by_thrower:
  "event_at msg_store 0 = Some msg_event
   \<and> returned_event
        (applyBeforeSend 0 msg_store
           (state_after_init (chain_options [change_and_throw ''changed''])))
       = Some (msg_event\<lparr>message := ''changed''\<rparr>)
   \<and> lines_written
        (applyBeforeSend 0 msg_store
           (state_after_init (chain_options [change_and_throw ''changed''])))
       = [\<lparr>line_sink = Console, line_level = Error_level,
            line_message = ''[Checkend] beforeSend callback threw an error:'',
            line_args = [ThrownArg (JStr ''boom'')]\<rparr>]
   \<and> returned_event
        (applyBeforeSend 0 msg_store
           (state_after_init (chain_options [change_and_throw ''changed'', add_to_message ''2''])))
       = Some (msg_event\<lparr>message := ''changed2''\<rparr>)
   \<and> returned_event
        (applyBeforeSend 0 msg_store
           (state_after_init (chain_options [add_to_message ''1'', throwing, add_to_message ''2''])))
       = Some (msg_event\<lparr>message := ''msg12''\<rparr>)"
proof -
  let ?c1 = "[change_and_throw ''changed'']"
  let ?c3 = "[add_to_message ''1'', throwing, add_to_message ''2'']"
  let ?c2 = "[change_and_throw ''changed'', add_to_message ''2'']"
  have a: "event_at msg_store 0 = Some msg_event"
    by (simp add: event_at_def cell_at_def msg_store_def)
  have b: "applyBeforeSend 0 msg_store (state_after_init (chain_options ?c1))
             = Inr (callbacks_loop ?c1 (Some 0, msg_store) (state_after_init (chain_options ?c1)) [])"
    by (rule applyBeforeSend_loop [OF chain_state(1) chain_state(4)])
  have c: "applyBeforeSend 0 msg_store (state_after_init (chain_options ?c2))
             = Inr (callbacks_loop ?c2 (Some 0, msg_store) (state_after_init (chain_options ?c2)) [])"
    by (rule applyBeforeSend_loop [OF chain_state(1) chain_state(4)])
  have t: "change_and_throw ''changed'' 0 msg_store
             = (Throws (JStr ''boom''), [EventCell (msg_event\<lparr>message := ''changed''\<rparr>)])"
    by (simp add: change_and_throw_def event_at_def cell_at_def msg_store_def)
  have r1: "returned_event (applyBeforeSend 0 msg_store (state_after_init (chain_options ?c1)))
              = Some (msg_event\<lparr>message := ''changed''\<rparr>)"
    unfolding b by (simp add: t returned_event_def event_at_def cell_at_def)
  have r2: "lines_written (applyBeforeSend 0 msg_store (state_after_init (chain_options ?c1)))
              = [\<lparr>line_sink = Console, line_level = Error_level,
                   line_message = ''[Checkend] beforeSend callback threw an error:'',
                   line_args = [ThrownArg (JStr ''boom'')]\<rparr>]"
    unfolding b by (simp add: t lines_written_def log_def chain_state logger_call_error)
  have r3: "returned_event (applyBeforeSend 0 msg_store (state_after_init (chain_options ?c2)))
              = Some (msg_event\<lparr>message := ''changed2''\<rparr>)"
    unfolding c
    by (simp add: t returned_event_def add_to_message_def alloc_def event_at_def cell_at_def
                  msg_event_def)
  have d: "applyBeforeSend 0 msg_store (state_after_init (chain_options ?c3))
             = Inr (callbacks_loop ?c3 (Some 0, msg_store) (state_after_init (chain_options ?c3)) [])"
    by (rule applyBeforeSend_loop [OF chain_state(1) chain_state(4)])
  have r4: "returned_event (applyBeforeSend 0 msg_store (state_after_init (chain_options ?c3)))
              = Some (msg_event\<lparr>message := ''msg12''\<rparr>)"
    unfolding d
    by (simp add: throwing_def returned_event_def add_to_message_def alloc_def event_at_def
                  cell_at_def msg_store_def msg_event_def)
  show ?thesis using a r1 r2 r3 r4 by simp
qed

section \<open>The debug line of \<open>init\<close>\<close>

lemma includes_str_length: "includes_str s p \<Longrightarrow> length p \<le> length s"
  by (auto simp: includes_str_iff)

lemma init_result:
  assumes "apiKey options \<noteq> []"
  shows "init options st =
           Inr (merge_defaults options,
                (if debug options = Some True
                 then st\<lparr>globalConfig := Some (merge_defaults options),
                         configuredLogger := Some (logger_for (merge_defaults options)),
                         written := written st @
                           [init_debug_line (logger_for (merge_defaults options))
                              (merge_defaults options)]\<rparr>
                 else st\<lparr>globalConfig := Some (merge_defaults options),
                         configuredLogger := Some (logger_for (merge_defaults options))\<rparr>))"
proof -
  let ?cfg = "merge_defaults options"
  have d: "debug ?cfg = Some True \<longleftrightarrow> debug options = Some True"
    by (simp add: merge_defaults_def or_default_def split: option.splits)
  have d': "(case debug ?cfg of Some d \<Rightarrow> d | None \<Rightarrow> False) = (debug ?cfg = Some True)"
    by (simp split: option.splits)
  have k: "apiKey ?cfg = apiKey options"
    by (simp add: merge_defaults_def)
  have lg: "(case logger ?cfg of
               Some l \<Rightarrow> Custom l
             | None \<Rightarrow> DefaultLogger (case debug ?cfg of Some d \<Rightarrow> d | None \<Rightarrow> False))
            = logger_for ?cfg"
    unfolding logger_for_def d' ..
  have w: "debug options = Some True \<Longrightarrow>
           logger_call (logger_for ?cfg) Debug_level m as s =
             s\<lparr>written := written s @
                [\<lparr>line_sink = sink_of (logger_for ?cfg), line_level = Debug_level,
                  line_message = m, line_args = as\<rparr>]\<rparr>" for m as and s :: state
    using d by (cases "logger ?cfg") (simp_all add: logger_for_def)
  show ?thesis
    using assms
    unfolding init_def Let_def lg
    by (simp add: d log_def w init_debug_line_def masked_key_def)
qed


text \<open>
  C2, as amended. For every non-empty credential \<open>init\<close> returns the merged
  configuration. With \<open>debug\<close> on it writes exactly one line, at debug level, whose
  argument is the merged configuration with the credential replaced by its first 8
  characters followed by \<open>...\<close>; otherwise it writes nothing. The replaced credential does
  not contain the full credential when the credential is longer than 11 characters, and
  it does contain it when the credential has at most 8 characters.
\<close>

theorem init_debug_line_masks_key:
  assumes "apiKey options \<noteq> []"
  shows "\<exists>cfg st'. init options st = Inr (cfg, st') \<and> cfg = merge_defaults options
           \<and> written st' =
               (if debug options = Some True
                then written st @ [init_debug_line (logger_for cfg) cfg]
                else written st)
           \<and> (11 < length (apiKey options) \<longrightarrow>
                \<not> includes_str (take 8 (apiKey cfg) @ ''...'') (apiKey options))
           \<and> (length (apiKey options) \<le> 8 \<longrightarrow>
                includes_str (take 8 (apiKey cfg) @ ''...'') (apiKey options))"
proof -
  let ?cfg = "merge_defaults options"
  let ?k = "apiKey options"
  have k: "apiKey ?cfg = ?k" by (simp add: merge_defaults_def)
  have long: "\<not> includes_str (take 8 ?k @ ''...'') ?k" if "11 < length ?k"
  proof
    assume "includes_str (take 8 ?k @ ''...'') ?k"
    then have "length ?k \<le> length (take 8 ?k @ ''...'')" by (rule includes_str_length)
    with that show False by simp
  qed
  have short: "includes_str (take 8 ?k @ ''...'') ?k" if "length ?k \<le> 8"
  proof -
    have "take 8 ?k @ ''...'' = [] @ ?k @ ''...''" using that by simp
    then show ?thesis unfolding includes_str_iff by blast
  qed
  show ?thesis
    using init_result [OF assms, of st] long short by (simp add: k)
qed

text \<open>
  With the credential \<open>test-key-0123456789\<close> and \<open>debug\<close> on, the line holds
  \<open>test-key...\<close>, which does not contain the credential; with \<open>debug\<close> off nothing
  is written; and the credential \<open>key-1234\<close> is contained in \<open>key-1234...\<close>.
\<close>

theorem init_debug_line_masks_key_witness:
  "apiKey (debug_options ''test-key-0123456789'') \<noteq> []
   \<and> map line_args (written (state_after_init (debug_options ''test-key-0123456789''))) =
       [[ConfigArg ((merge_defaults (debug_options ''test-key-0123456789''))
                      \<lparr>apiKey := ''test-key...''\<rparr>)]]
   \<and> \<not> includes_str ''test-key...'' ''test-key-0123456789''
   \<and> written (state_after_init (options_with_key ''test-key-0123456789'')) = []
   \<and> includes_str ''key-1234...'' ''key-1234''"
proof -
  let ?o = "debug_options ''test-key-0123456789''"
  let ?q = "options_with_key ''test-key-0123456789''"
  let ?s = "debug_options ''key-1234''"
  have key: "apiKey ?o \<noteq> []" by (simp add: debug_options_def options_with_key_def)
  have dbg: "debug ?o = Some True" by (simp add: debug_options_def)
  have k: "apiKey (merge_defaults ?o) = ''test-key-0123456789''"
    by (simp add: merge_defaults_def debug_options_def options_with_key_def)
  have len: "11 < length (apiKey ?o)" by (simp add: debug_options_def options_with_key_def)
  obtain cfg st' where i: "init ?o fresh = Inr (cfg, st')" and c: "cfg = merge_defaults ?o"
    and w: "written st' = (if debug ?o = Some True
                then written fresh @ [init_debug_line (logger_for cfg) cfg]
                else written fresh)"
    and n: "11 < length (apiKey ?o) \<longrightarrow> \<not> includes_str (take 8 (apiKey cfg) @ ''...'') (apiKey ?o)"
    using init_debug_line_masks_key [OF key, of fresh] by blast
  have s: "state_after_init ?o = st'" using i by (simp add: state_after_init_def)
  have "written st' = [init_debug_line (logger_for cfg) cfg]"
    using w dbg by (simp add: fresh_def)
  then have a: "map line_args (written (state_after_init ?o)) =
       [[ConfigArg ((merge_defaults ?o)\<lparr>apiKey := ''test-key...''\<rparr>)]]"
    using s c k by (simp add: init_debug_line_def)
  have b: "\<not> includes_str ''test-key...'' ''test-key-0123456789''"
    using n len c k by (simp add: debug_options_def options_with_key_def)
  have keyq: "apiKey ?q \<noteq> []" by (simp add: options_with_key_def)
  have dq: "debug ?q \<noteq> Some True" by (simp add: options_with_key_def)
  obtain cfgq stq where iq: "init ?q fresh = Inr (cfgq, stq)"
    and wq: "written stq = (if debug ?q = Some True
                then written fresh @ [init_debug_line (logger_for cfgq) cfgq]
                else written fresh)"
    using init_debug_line_masks_key [OF keyq, of fresh] by blast
  have q: "written (state_after_init ?q) = []"
    using iq wq dq by (simp add: state_after_init_def fresh_def)
  have keys: "apiKey ?s \<noteq> []" by (simp add: debug_options_def options_with_key_def)
  have ks: "apiKey (merge_defaults ?s) = ''key-1234''" "apiKey ?s = ''key-1234''"
    by (simp_all add: merge_defaults_def debug_options_def options_with_key_def)
  obtain cfgs sts where cs: "cfgs = merge_defaults ?s"
    and ms: "length (apiKey ?s) \<le> 8 \<longrightarrow>
                includes_str (take 8 (apiKey cfgs) @ ''...'') (apiKey ?s)"
    using init_debug_line_masks_key [OF keys, of fresh] by blast
  have sh: "includes_str ''key-1234...'' ''key-1234''"
    using ms by (simp add: cs ks)
  show ?thesis using key a b q sh by blast
qed

text \<open>
  The claim as stated fails for a short credential: with the credential \<open>test-key\<close> the
  line holds \<open>test-key...\<close>, which contains the whole credential; and with the
  credential \<open>abcdefgh.\<close> it holds \<open>abcdefgh...\<close>, which contains it too.
\<close>

theorem init_debug_line_short_key_counterexample:
  "map line_args (written (state_after_init (debug_options ''test-key''))) =
       [[ConfigArg ((merge_defaults (debug_options ''test-key''))\<lparr>apiKey := ''test-key...''\<rparr>)]]
   \<and> includes_str ''test-key...'' ''test-key''
   \<and> map line_args (written (state_after_init (debug_options ''abcdefgh.''))) =
       [[ConfigArg ((merge_defaults (debug_options ''abcdefgh.''))\<lparr>apiKey := ''abcdefgh...''\<rparr>)]]
   \<and> includes_str ''abcdefgh...'' ''abcdefgh.''"
proof -
  have a: "map line_args (written (state_after_init (debug_options k))) =
       [[ConfigArg ((merge_defaults (debug_options k))\<lparr>apiKey := take 8 k @ ''...''\<rparr>)]]"
    if "k \<noteq> []" for k
  proof -
    have key: "apiKey (debug_options k) \<noteq> []"
      using that by (simp add: debug_options_def options_with_key_def)
    have kk: "apiKey (merge_defaults (debug_options k)) = k"
      by (simp add: merge_defaults_def debug_options_def options_with_key_def)
    have dbg: "debug (debug_options k) = Some True"
      by (simp add: debug_options_def)
    show ?thesis
      unfolding state_after_init_def init_result [OF key]
      by (simp add: dbg fresh_def init_debug_line_def kk)
  qed
  show ?thesis
    using a [of "''test-key''"] a [of "''abcdefgh.''"] by simp
qed

section \<open>Patterns compiled from plain keys\<close>

lemma parse_plain:
  "plain cs \<Longrightarrow>
     parse (g, alts, ts) stack n (cs @ rest) =
     parse (g, alts, rev (map (\<lambda>c. T (Atom (Ch c))) cs) @ ts) stack n rest"
proof (induction cs arbitrary: ts)
  case Nil
  then show ?case by simp
next
  case (Cons c cs)
  from Cons.prems have c: "c \<notin> set syntax_chars" and cs: "plain cs"
    by (simp_all add: plain_def)
  from c have "parse (g, alts, ts) stack n ((c # cs) @ rest)
                 = parse (g, alts, T (Atom (Ch c)) # ts) stack n (cs @ rest)"
    by (simp add: syntax_chars_def add_term_def)
  also have "\<dots> = parse (g, alts, rev (map (\<lambda>c. T (Atom (Ch c))) cs) @ T (Atom (Ch c)) # ts)
                       stack n rest"
    by (rule Cons.IH [OF cs])
  finally show ?case by simp
qed

lemma close_alt_plain: "close_alt (rev (map (\<lambda>c. T (Atom (Ch c))) cs)) = literal cs"
  by (simp add: close_alt_def literal_def rev_map [symmetric] comp_def)

lemma parse_join:
  "keys \<noteq> [] \<Longrightarrow> list_all plain keys \<Longrightarrow>
     parse (None, alts, []) [] n (join keys ''|'') = Inr (alt_of (rev alts @ map literal keys))"
proof (induction keys "''|''" arbitrary: alts rule: join.induct)
  case 1
  then show ?case by simp
next
  case (2 x)
  then have "plain x" by simp
  from parse_plain [OF this, of None alts "[]" "[]" n "[]"]
  show ?case by (simp add: frame_regex_def close_alt_plain)
next
  case (3 x y ys)
  then have x: "plain x" and r: "list_all plain (y # ys)" by simp_all
  have "parse (None, alts, []) [] n (join (x # y # ys) ''|'')
          = parse (None, alts, rev (map (\<lambda>c. T (Atom (Ch c))) x)) [] n
              (CHR ''|'' # join (y # ys) ''|'')"
    using parse_plain [OF x, of None alts "[]" "[]" n "CHR ''|'' # join (y # ys) ''|''"] by simp
  also have "\<dots> = parse (None, literal x # alts, []) [] n (join (y # ys) ''|'')"
    by (simp add: next_alt_def close_alt_plain)
  also have "\<dots> = Inr (alt_of (rev (literal x # alts) @ map literal (y # ys)))"
    by (rule "3.hyps") (use r in simp_all)
  finally show ?case by simp
qed

lemma run_literal:
  "run ic (literal k) (b, s, c) =
     (if literally ic k s then [(b \<and> k = [], drop (length k) s, c)] else [])"
proof (induction k arbitrary: b s)
  case Nil
  then show ?case by (simp add: literal_def)
next
  case (Cons x k)
  have l: "literal (x # k) = Seq (Atom (Ch x)) (literal k)" by (simp add: literal_def)
  note IH = Cons.IH
  show ?case
  proof (cases s)
    case Nil
    then show ?thesis by (simp add: l)
  next
    case (Cons y s')
    then show ?thesis using IH [of False s'] by (cases ic) (simp_all add: l)
  qed
qed

lemma run_alt_of:
  "rs \<noteq> [] \<Longrightarrow> run ic (alt_of rs) st = [] \<longleftrightarrow> (\<forall>r \<in> set rs. run ic r st = [])"
  by (induction rs rule: alt_of.induct) auto

lemma literally_Nil: "literally ic k [] \<longleftrightarrow> k = []"
  by (cases k) simp_all

lemma search_literals:
  assumes "keys \<noteq> []"
  shows "search ic (alt_of (map literal keys)) b s \<noteq> None \<longleftrightarrow> (\<exists>k \<in> set keys. occurs ic k s)"
proof -
  have r: "run ic (alt_of (map literal keys)) (b', s', []) = []
             \<longleftrightarrow> (\<forall>k \<in> set keys. \<not> literally ic k s')" for b' s'
    using assms by (simp add: run_alt_of run_literal)
  show ?thesis
  proof (induction s arbitrary: b)
    case Nil
    show ?case
      using r [of b "[]"]
      by (cases "run ic (alt_of (map literal keys)) (b, [], [])") (auto simp: literally_Nil)
  next
    case (Cons x s)
    show ?case
      using r [of b "x # s"] Cons.IH [of False]
      by (cases "run ic (alt_of (map literal keys)) (b, x # s, [])") auto
  qed
qed

section \<open>The redactor\<close>

declare sanitizeValue.simps [simp del]

lemma sanitizeValue_deep:
  "maxDepth < int d \<Longrightarrow> sanitizeValue pat maxDepth v d = JStr ''[MAX_DEPTH]''"
  by (simp add: sanitizeValue.simps)

lemma sanitizeValue_scalar:
  "int d \<le> maxDepth \<Longrightarrow> scalar v \<Longrightarrow> sanitizeValue pat maxDepth v d = v"
  by (cases v) (simp_all add: sanitizeValue.simps)

lemma sanitizeItems_map:
  "sanitizeItems pat maxDepth items d = map (\<lambda>v. sanitizeValue pat maxDepth v d) items"
  by (induction items) simp_all

lemma assign_new: "key \<notin> fst ` set acc \<Longrightarrow> assign acc key v = acc @ [(key, v)]"
  by (induction acc) auto

lemma sanitizeEntries_map:
  "distinct (map fst acc @ map fst es) \<Longrightarrow>
     sanitizeEntries pat maxDepth es d acc =
       acc @ map (\<lambda>(k, v). (k, redacted pat maxDepth d k v)) es"
proof (induction es arbitrary: acc)
  case Nil
  then show ?case by simp
next
  case (Cons e es)
  obtain k v where e: "e = (k, v)" by (cases e)
  from Cons.prems e have new: "k \<notin> fst ` set acc" by auto
  from Cons.prems e have d: "distinct (map fst (acc @ [(k, redacted pat maxDepth d k v)]) @ map fst es)"
    by auto
  show ?case
    using Cons.IH [OF d] by (simp add: e assign_new [OF new] redacted_def)
qed

lemma sanitizeValue_object:
  assumes "int d \<le> maxDepth" and "distinct (map fst es)"
  shows "sanitizeValue pat maxDepth (JObj es) d =
           JObj (map (\<lambda>(k, v). (k, redacted pat maxDepth (d + 1) k v)) es)"
  using assms sanitizeEntries_map [of "[]" es pat maxDepth "d + 1"]
  by (simp add: sanitizeValue.simps)

lemma sanitizeValue_array:
  assumes "int d \<le> maxDepth"
  shows "sanitizeValue pat maxDepth (JArr items) d =
           JArr (map (\<lambda>v. sanitizeValue pat maxDepth v (d + 1)) items)"
  using assms by (simp add: sanitizeValue.simps sanitizeItems_map)

lemma map_of_redacted:
  "map_of (map (\<lambda>(k, v). (k, f k v)) es) k = map_option (f k) (map_of es k)"
  by (induction es) auto

lemma well_formed_entries_map_of:
  "well_formed_entries es \<Longrightarrow> map_of es k = Some v \<Longrightarrow> well_formed v"
  by (induction es) (auto split: if_splits)

lemma well_formed_items_nth:
  "well_formed_items vs \<Longrightarrow> i < length vs \<Longrightarrow> well_formed (vs ! i)"
  by (induction vs arbitrary: i) (auto simp: nth_Cons split: nat.splits)

lemma lookup_path_sanitized:
  assumes "well_formed v" and "lookup_path v p = Some w"
    and "int (d + length p) \<le> maxDepth"
    and "\<forall>k \<in> set (path_keys p). \<not> regexp_test pat k"
  shows "lookup_path (sanitizeValue pat maxDepth v d) p
           = Some (sanitizeValue pat maxDepth w (d + length p))"
  using assms
proof (induction v p arbitrary: d rule: lookup_path.induct)
  case (1 v)
  then show ?case by simp
next
  case (2 entries k p)
  from "2.prems" obtain u where u: "map_of entries k = Some u" and w: "lookup_path u p = Some w"
    by (auto split: option.splits)
  from "2.prems" have dist: "distinct (map fst entries)" and wf: "well_formed_entries entries"
    by simp_all
  have wfu: "well_formed u" by (rule well_formed_entries_map_of [OF wf u])
  from "2.prems" have d: "int d \<le> maxDepth" and d': "int (d + 1 + length p) \<le> maxDepth"
    and nk: "\<not> regexp_test pat k" and rest: "\<forall>k \<in> set (path_keys p). \<not> regexp_test pat k"
    by simp_all
  have "lookup_path (sanitizeValue pat maxDepth (JObj entries) d) (Key k # p)
          = lookup_path (sanitizeValue pat maxDepth u (d + 1)) p"
    by (simp add: sanitizeValue_object [OF d dist] map_of_redacted u redacted_def nk)
  also have "\<dots> = Some (sanitizeValue pat maxDepth w (d + 1 + length p))"
    by (rule "2.IH" [OF u wfu w d' rest])
  finally show ?case by simp
next
  case (3 items i p)
  from "3.prems" have i: "i < length items" and w: "lookup_path (items ! i) p = Some w"
    by (auto split: if_splits)
  from "3.prems" have wf: "well_formed (items ! i)"
    by (simp add: well_formed_items_nth i)
  from "3.prems" have d: "int d \<le> maxDepth" and d': "int (d + 1 + length p) \<le> maxDepth"
    and rest: "\<forall>k \<in> set (path_keys p). \<not> regexp_test pat k"
    by simp_all
  have "lookup_path (sanitizeValue pat maxDepth (JArr items) d) (Index i # p)
          = lookup_path (sanitizeValue pat maxDepth (items ! i) (d + 1)) p"
    by (simp add: sanitizeValue_array [OF d] i)
  also have "\<dots> = Some (sanitizeValue pat maxDepth w (d + 1 + length p))"
    by (rule "3.IH" [OF i wf w d' rest])
  finally show ?case by simp
qed simp_all

lemma lookup_path_append:
  "lookup_path v (p @ q) = (case lookup_path v p of None \<Rightarrow> None | Some w \<Rightarrow> lookup_path w q)"
  by (induction v p rule: lookup_path.induct) (auto split: option.splits)

lemma well_formed_lookup:
  "well_formed v \<Longrightarrow> lookup_path v p = Some w \<Longrightarrow> well_formed w"
  by (induction v p rule: lookup_path.induct)
     (auto split: option.splits if_splits
           dest: well_formed_entries_map_of well_formed_items_nth)

lemma canonicalize_lower:
  "map canonicalize ''abcdefghijklmnopqrstuvwxyz'' = ''ABCDEFGHIJKLMNOPQRSTUVWXYZ''"
  by code_simp

lemma canonicalize_upper:
  "map canonicalize ''ABCDEFGHIJKLMNOPQRSTUVWXYZ'' = ''ABCDEFGHIJKLMNOPQRSTUVWXYZ''"
  by code_simp

lemma canonicalize_other:
  "map canonicalize ''_-0123456789'' = ''_-0123456789''"
  by code_simp

lemmas canonicalize_simps =
  canonicalize_lower [simplified] canonicalize_upper [simplified] canonicalize_other [simplified]

lemma compile_plain_keys:
  assumes "list_all plain keys"
  shows "new_RegExp (join keys ''|'') True = Inr (keys_pattern keys)"
proof (cases "keys = []")
  case True
  then show ?thesis
    by (simp add: new_RegExp_def frame_regex_def close_alt_def keys_pattern_def)
next
  case False
  show ?thesis
    using parse_join [OF False assms, of "[]" 1] by (simp add: new_RegExp_def keys_pattern_def)
qed

lemma test_keys_pattern:
  "regexp_test (keys_pattern keys) s \<longleftrightarrow> keys = [] \<or> (\<exists>k \<in> set keys. occurs True k s)"
proof (cases "keys = []")
  case True
  have "search True Eps True s \<noteq> None" by (cases s) simp_all
  with True show ?thesis by (simp add: keys_pattern_def regexp_test_def del: not_None_eq)
next
  case False
  then show ?thesis
    by (simp add: keys_pattern_def regexp_test_def search_literals del: not_None_eq)
qed

lemma literally_self: "literally ic k (k @ s)"
  by (induction k) simp_all

lemma occurs_self: "occurs ic k k"
  using literally_self [of ic k "[]"] by (cases k) simp_all

lemma sanitize_plain_keys:
  assumes "getFilterKeys st = Inr keys" and "list_all plain keys"
  shows "sanitize data arg st = Inr (sanitizeValue (keys_pattern keys) (depth_limit arg) data 0)"
  using assms by (simp add: sanitize_def compile_plain_keys depth_limit_def)

text \<open>
  C1, as amended. Take a live configuration whose effective filter keys are plain (hold
  no syntax character of the pattern language) and include \<open>password\<close>, and a well-formed
  value with an object at a path of at most \<open>maxDepth\<close> steps, where no filter key occurs
  (case-insensitively) in a key on that path. Let \<open>k\<close> be a key of that object that is
  \<open>password\<close> or holds it in any case (\<open>PASSWORD\<close>, \<open>userPassword\<close>). Then the
  join of the keys compiles, with the flag \<open>i\<close>, to a pattern that matches exactly the
  strings in which a filter key occurs ignoring case; \<open>sanitize\<close> returns what
  \<open>sanitizeValue\<close> gives with that pattern from depth 0; and that result holds
  \<open>[FILTERED]\<close> at the path under \<open>k\<close>. Moreover, with that pattern, an object met at
  a depth of at most \<open>maxDepth\<close> gets \<open>[FILTERED]\<close> under each key the pattern matches
  and the value sanitized at \<open>depth + 1\<close> under each other key, and \<open>null\<close>,
  \<open>undefined\<close>, booleans and numbers met at a depth of at most \<open>maxDepth\<close> pass through
  unchanged.
\<close>

theorem sanitize_filters_password:
  assumes keys: "getFilterKeys st = Inr keys"
    and plain: "list_all plain keys"
    and pw: "''password'' \<in> set keys"
    and wf: "well_formed data"
    and obj: "lookup_path data p = Some (JObj es)"
    and has: "k \<in> fst ` set es"
    and same: "k = ''password'' \<or> occurs True ''password'' k"
    and depth: "int (length p) \<le> depth_limit arg"
    and clean: "\<forall>k \<in> set (path_keys p). \<not> (\<exists>f \<in> set keys. occurs True f k)"
  shows "\<exists>pat r. new_RegExp (join keys ''|'') True = Inr pat
           \<and> (\<forall>s. regexp_test pat s \<longleftrightarrow> (\<exists>f \<in> set keys. occurs True f s))
           \<and> sanitize data arg st = Inr r
           \<and> r = sanitizeValue pat (depth_limit arg) data 0
           \<and> lookup_path r (p @ [Key k]) = Some (JStr ''[FILTERED]'')
           \<and> (\<forall>d es'. int d \<le> depth_limit arg \<and> distinct (map fst es') \<longrightarrow>
                 sanitizeValue pat (depth_limit arg) (JObj es') d =
                   JObj (map (\<lambda>(k, v).
                           (k, if regexp_test pat k then JStr ''[FILTERED]''
                               else sanitizeValue pat (depth_limit arg) v (d + 1))) es'))
           \<and> (\<forall>d v. int d \<le> depth_limit arg \<and> scalar v \<longrightarrow>
                 sanitizeValue pat (depth_limit arg) v d = v)"
proof -
  let ?pat = "keys_pattern keys"
  let ?md = "depth_limit arg"
  let ?r = "sanitizeValue ?pat ?md data 0"
  have c: "new_RegExp (join keys ''|'') True = Inr ?pat"
    by (rule compile_plain_keys [OF plain])
  have s: "sanitize data arg st = Inr ?r"
    by (rule sanitize_plain_keys [OF keys plain])
  have ne: "keys \<noteq> []" using pw by auto
  have ci: "regexp_test ?pat s \<longleftrightarrow> (\<exists>f \<in> set keys. occurs True f s)" for s
    using ne by (simp add: test_keys_pattern)
  have cl: "\<forall>k \<in> set (path_keys p). \<not> regexp_test ?pat k"
    using clean by (simp add: ci)
  have "occurs True ''password'' k"
    using same occurs_self [of True "''password''"] by blast
  then have t: "regexp_test ?pat k"
    unfolding ci using pw by blast
  have wfo: "well_formed (JObj es)" by (rule well_formed_lookup [OF wf obj])
  then have dist: "distinct (map fst es)" by simp
  from has obtain v where v: "map_of es k = Some v"
    by (metis (no_types) domIff dom_map_of_conv_image_fst not_None_eq)
  have "lookup_path ?r p = Some (sanitizeValue ?pat ?md (JObj es) (0 + length p))"
    by (rule lookup_path_sanitized [OF wf obj _ cl]) (use depth in simp)
  also have "sanitizeValue ?pat ?md (JObj es) (0 + length p)
               = JObj (map (\<lambda>(k, v). (k, redacted ?pat ?md (length p + 1) k v)) es)"
    using sanitizeValue_object [OF depth dist] by simp
  finally have "lookup_path ?r (p @ [Key k]) = Some (JStr ''[FILTERED]'')"
    by (simp add: lookup_path_append map_of_redacted v redacted_def t)
  moreover have "sanitizeValue ?pat ?md (JObj es') d =
                   JObj (map (\<lambda>(k, v).
                           (k, if regexp_test ?pat k then JStr ''[FILTERED]''
                               else sanitizeValue ?pat ?md v (d + 1))) es')"
    if "int d \<le> ?md \<and> distinct (map fst es')" for d es'
    using that sanitizeValue_object [of d ?md es' ?pat] unfolding redacted_def by blast
  moreover have "sanitizeValue ?pat ?md v d = v" if "int d \<le> ?md \<and> scalar v" for d v
    using that by (simp add: sanitizeValue_scalar)
  ultimately show ?thesis using c s ci by blast
qed

lemma default_keys:
  "getFilterKeys (state_after_init (options_with_key ''test-key'')) = Inr DEFAULT_FILTER_KEYS"
  by code_simp

lemma default_keys_plain: "list_all plain DEFAULT_FILTER_KEYS"
  by code_simp

text \<open>
  With the default configuration, \<open>{user: {name: 'john', password: 'secret123'}}\<close>
  becomes \<open>{user: {name: 'john', password: '[FILTERED]'}}\<close>: the object under
  \<open>user\<close>, met at depth 1, keeps its name; a number and \<open>null\<close> pass through; and
  \<open>{PASSWORD: 'x'}\<close> becomes \<open>{PASSWORD: '[FILTERED]'}\<close>.
\<close>

theorem sanitize_filters_password_witness:
  "getFilterKeys (state_after_init (options_with_key ''test-key'')) = Inr DEFAULT_FILTER_KEYS
   \<and> list_all plain DEFAULT_FILTER_KEYS
   \<and> ''password'' \<in> set DEFAULT_FILTER_KEYS
   \<and> well_formed user_data
   \<and> lookup_path user_data [Key ''user'']
       = Some (JObj [(''name'', JStr ''john''), (''password'', JStr ''secret123'')])
   \<and> well_formed shout_data
   \<and> occurs True ''password'' ''PASSWORD''
   \<and> (\<exists>pat. new_RegExp (join DEFAULT_FILTER_KEYS ''|'') True = Inr pat
          \<and> regexp_test pat ''PASSWORD''
          \<and> \<not> regexp_test pat ''name''
          \<and> sanitize user_data None (state_after_init (options_with_key ''test-key''))
              = Inr (sanitizeValue pat 10 user_data 0)
          \<and> lookup_path (sanitizeValue pat 10 user_data 0) [Key ''user'', Key ''password'']
              = Some (JStr ''[FILTERED]'')
          \<and> sanitizeValue pat 10
                (JObj [(''name'', JStr ''john''), (''password'', JStr ''secret123'')]) 1
              = JObj [(''name'', JStr ''john''), (''password'', JStr ''[FILTERED]'')]
          \<and> sanitizeValue pat 10 (JNum 5) 3 = JNum 5
          \<and> sanitizeValue pat 10 JNull 10 = JNull)
   \<and> sanitize user_data None (state_after_init (options_with_key ''test-key''))
       = Inr (JObj [(''user'', JObj [(''name'', JStr ''john''),
                                     (''password'', JStr ''[FILTERED]'')])])
   \<and> sanitize shout_data None (state_after_init (options_with_key ''test-key''))
       = Inr (JObj [(''PASSWORD'', JStr ''[FILTERED]'')])"
proof -
  let ?st = "state_after_init (options_with_key ''test-key'')"
  let ?es = "[(''name'', JStr ''john''), (''password'', JStr ''secret123'')]"
  have pw: "''password'' \<in> set DEFAULT_FILTER_KEYS" by (simp add: DEFAULT_FILTER_KEYS_def)
  have wf: "well_formed user_data" by (simp add: user_data_def)
  have obj: "lookup_path user_data [Key ''user''] = Some (JObj ?es)" by (simp add: user_data_def)
  have has: "''password'' \<in> fst ` set ?es" by simp
  have depth: "int (length [Key ''user'']) \<le> depth_limit None" by (simp add: depth_limit_def)
  have clean: "\<forall>k \<in> set (path_keys [Key ''user'']).
                 \<not> (\<exists>f \<in> set DEFAULT_FILTER_KEYS. occurs True f k)"
    by (simp add: DEFAULT_FILTER_KEYS_def canonicalize_simps)
  from sanitize_filters_password [OF default_keys default_keys_plain pw wf obj has disjI1 [OF refl]
         depth clean]
  obtain pat r where
    c: "new_RegExp (join DEFAULT_FILTER_KEYS ''|'') True = Inr pat"
    and ci: "\<forall>s. regexp_test pat s \<longleftrightarrow> (\<exists>f \<in> set DEFAULT_FILTER_KEYS. occurs True f s)"
    and s: "sanitize user_data None ?st = Inr r"
    and r: "r = sanitizeValue pat (depth_limit None) user_data 0"
    and l: "lookup_path r ([Key ''user''] @ [Key ''password'']) = Some (JStr ''[FILTERED]'')"
    and o: "\<forall>d es'. int d \<le> depth_limit None \<and> distinct (map fst es') \<longrightarrow>
                 sanitizeValue pat (depth_limit None) (JObj es') d =
                   JObj (map (\<lambda>(k, v).
                           (k, if regexp_test pat k then JStr ''[FILTERED]''
                               else sanitizeValue pat (depth_limit None) v (d + 1))) es')"
    and v: "\<forall>d v. int d \<le> depth_limit None \<and> scalar v \<longrightarrow>
                 sanitizeValue pat (depth_limit None) v d = v"
    by blast
  have t: "\<not> regexp_test pat ''name''" "regexp_test pat ''password''"
    "regexp_test pat ''PASSWORD''" "\<not> regexp_test pat ''user''"
    unfolding ci [rule_format]
    by (simp_all add: DEFAULT_FILTER_KEYS_def canonicalize_simps)
  have dl: "depth_limit None = 10" by (simp add: depth_limit_def)
  from o have "int 1 \<le> depth_limit None \<and> distinct (map fst ?es) \<longrightarrow>
                 sanitizeValue pat (depth_limit None) (JObj ?es) 1 =
                   JObj (map (\<lambda>(k, v).
                           (k, if regexp_test pat k then JStr ''[FILTERED]''
                               else sanitizeValue pat (depth_limit None) v (1 + 1))) ?es)"
    by blast
  then have a: "sanitizeValue pat 10 (JObj ?es) 1
                  = JObj [(''name'', JStr ''john''), (''password'', JStr ''[FILTERED]'')]"
    by (simp add: dl t sanitizeValue.simps)
  from o have "int 0 \<le> depth_limit None \<and> distinct (map fst [(''user'', JObj ?es)]) \<longrightarrow>
                 sanitizeValue pat (depth_limit None) (JObj [(''user'', JObj ?es)]) 0 =
                   JObj (map (\<lambda>(k, v).
                           (k, if regexp_test pat k then JStr ''[FILTERED]''
                               else sanitizeValue pat (depth_limit None) v (0 + 1))) 
                           [(''user'', JObj ?es)])"
    by blast
  then have u: "sanitizeValue pat 10 user_data 0
                  = JObj [(''user'', JObj [(''name'', JStr ''john''),
                                           (''password'', JStr ''[FILTERED]'')])]"
    using a by (simp add: dl t user_data_def)
  from v have "int 3 \<le> depth_limit None \<and> scalar (JNum 5) \<longrightarrow>
                 sanitizeValue pat (depth_limit None) (JNum 5) 3 = JNum 5"
    by blast
  then have b: "sanitizeValue pat 10 (JNum 5) 3 = JNum 5" by (simp add: dl)
  from v have "int 10 \<le> depth_limit None \<and> scalar JNull \<longrightarrow>
                 sanitizeValue pat (depth_limit None) JNull 10 = JNull"
    by blast
  then have b': "sanitizeValue pat 10 JNull 10 = JNull" by (simp add: dl)
  have s1: "sanitize user_data None ?st = Inr (sanitizeValue pat 10 user_data 0)"
    using s r by (simp add: dl)
  have l1: "lookup_path (sanitizeValue pat 10 user_data 0) [Key ''user'', Key ''password'']
              = Some (JStr ''[FILTERED]'')"
    using l r by (simp add: dl)
  have e2: "\<exists>pat. new_RegExp (join DEFAULT_FILTER_KEYS ''|'') True = Inr pat
          \<and> regexp_test pat ''PASSWORD''
          \<and> \<not> regexp_test pat ''name''
          \<and> sanitize user_data None ?st = Inr (sanitizeValue pat 10 user_data 0)
          \<and> lookup_path (sanitizeValue pat 10 user_data 0) [Key ''user'', Key ''password'']
              = Some (JStr ''[FILTERED]'')
          \<and> sanitizeValue pat 10 (JObj ?es) 1
              = JObj [(''name'', JStr ''john''), (''password'', JStr ''[FILTERED]'')]
          \<and> sanitizeValue pat 10 (JNum 5) 3 = JNum 5
          \<and> sanitizeValue pat 10 JNull 10 = JNull"
    using c t s1 l1 a b b' by blast
  have s2: "sanitize user_data None ?st
              = Inr (JObj [(''user'', JObj [(''name'', JStr ''john''),
                                            (''password'', JStr ''[FILTERED]'')])])"
    using s1 u by simp
  have wf': "well_formed shout_data" by (simp add: shout_data_def)
  have obj': "lookup_path shout_data [] = Some (JObj [(''PASSWORD'', JStr ''x'')])"
    by (simp add: shout_data_def)
  have oc: "occurs True ''password'' ''PASSWORD''" by (simp add: canonicalize_simps)
  from sanitize_filters_password [OF default_keys default_keys_plain pw wf' obj' _ disjI2 [OF oc],
         of None]
  obtain pat' r' where
    c': "new_RegExp (join DEFAULT_FILTER_KEYS ''|'') True = Inr pat'"
    and s': "sanitize shout_data None ?st = Inr r'"
    and r': "r' = sanitizeValue pat' (depth_limit None) shout_data 0"
    and o': "\<forall>d es'. int d \<le> depth_limit None \<and> distinct (map fst es') \<longrightarrow>
                 sanitizeValue pat' (depth_limit None) (JObj es') d =
                   JObj (map (\<lambda>(k, v).
                           (k, if regexp_test pat' k then JStr ''[FILTERED]''
                               else sanitizeValue pat' (depth_limit None) v (d + 1))) es')"
    by (auto simp: depth_limit_def)
  have p': "pat' = pat" using c c' by simp
  from o' have "int 0 \<le> depth_limit None \<and> distinct (map fst [(''PASSWORD'', JStr ''x'')]) \<longrightarrow>
                 sanitizeValue pat' (depth_limit None) (JObj [(''PASSWORD'', JStr ''x'')]) 0 =
                   JObj (map (\<lambda>(k, v).
                           (k, if regexp_test pat' k then JStr ''[FILTERED]''
                               else sanitizeValue pat' (depth_limit None) v (0 + 1)))
                           [(''PASSWORD'', JStr ''x'')])"
    by blast
  then have "sanitizeValue pat' (depth_limit None) shout_data 0
               = JObj [(''PASSWORD'', JStr ''[FILTERED]'')]"
    by (simp add: dl p' t shout_data_def)
  with s' r' have s3: "sanitize shout_data None ?st = Inr (JObj [(''PASSWORD'', JStr ''[FILTERED]'')])"
    by simp
  show ?thesis
    using default_keys default_keys_plain pw wf obj wf' oc e2 s2 s3 by blast
qed

lemma parse_unbalanced:
  "list_all plain keys \<Longrightarrow>
     parse (None, alts, []) [] n (join (keys @ [''('']) ''|'') = Inl SyntaxError"
proof (induction keys arbitrary: alts)
  case Nil
  show ?case by simp
next
  case (Cons x keys)
  then have x: "plain x" and r: "list_all plain keys" by simp_all
  obtain y ys where y: "keys @ [''(''] = y # ys" by (cases "keys @ [''('']") auto
  have "parse (None, alts, []) [] n (join ((x # keys) @ [''('']) ''|'')
          = parse (None, alts, rev (map (\<lambda>c. T (Atom (Ch c))) x)) [] n
              (CHR ''|'' # join (keys @ [''('']) ''|'')"
    using parse_plain [OF x, of None alts "[]" "[]" n "CHR ''|'' # join (keys @ [''('']) ''|''"] y
    by simp
  also have "\<dots> = parse (None, literal x # alts, []) [] n (join (keys @ [''('']) ''|'')"
    by (simp add: next_alt_def close_alt_plain)
  also have "\<dots> = Inl SyntaxError" by (rule Cons.IH [OF r])
  finally show ?case .
qed

lemma paren_keys:
  "getFilterKeys (state_after_init paren_options) = Inr (DEFAULT_FILTER_KEYS @ [''(''])"
  by code_simp

text \<open>
  The claim as stated fails in two ways. With the default configuration, in
  \<open>{auth: {password: 'x'}}\<close> the object under \<open>auth\<close> has the key \<open>password\<close> at depth
  1, but \<open>auth\<close> is itself a filter key: the result is \<open>{auth: '[FILTERED]'}\<close>, which has
  nothing at \<open>auth.password\<close>. And with the custom filter key \<open>(\<close> the effective keys
  still include \<open>password\<close>, but their join is not a pattern: \<open>sanitize\<close> throws
  \<open>SyntaxError\<close>.
\<close>

theorem sanitize_password_counterexample:
  "lookup_path auth_data [Key ''auth''] = Some (JObj [(''password'', JStr ''x'')])
   \<and> sanitize auth_data None (state_after_init (options_with_key ''test-key''))
       = Inr (JObj [(''auth'', JStr ''[FILTERED]'')])
   \<and> lookup_path (JObj [(''auth'', JStr ''[FILTERED]'')]) [Key ''auth'', Key ''password''] = None
   \<and> getFilterKeys (state_after_init paren_options) = Inr (DEFAULT_FILTER_KEYS @ [''(''])
   \<and> sanitize (JObj [(''password'', JStr ''x'')]) None (state_after_init paren_options)
       = Inl SyntaxError"
proof -
  have t: "regexp_test (keys_pattern DEFAULT_FILTER_KEYS) ''auth''"
    unfolding test_keys_pattern
    using occurs_self [of True "''auth''"] by (simp add: DEFAULT_FILTER_KEYS_def)
  have "sanitize auth_data None (state_after_init (options_with_key ''test-key''))
          = Inr (sanitizeValue (keys_pattern DEFAULT_FILTER_KEYS) 10 auth_data 0)"
    using sanitize_plain_keys [OF default_keys default_keys_plain]
    by (simp add: depth_limit_def)
  also have "sanitizeValue (keys_pattern DEFAULT_FILTER_KEYS) 10 auth_data 0
               = JObj [(''auth'', JStr ''[FILTERED]'')]"
    by (simp add: auth_data_def sanitizeValue_object redacted_def t)
  finally have a: "sanitize auth_data None (state_after_init (options_with_key ''test-key''))
       = Inr (JObj [(''auth'', JStr ''[FILTERED]'')])" .
  have "new_RegExp (join (DEFAULT_FILTER_KEYS @ [''('']) ''|'') True = Inl SyntaxError"
    using parse_unbalanced [OF default_keys_plain, of "[]" 1] by (simp add: new_RegExp_def)
  then have b: "sanitize (JObj [(''password'', JStr ''x'')]) None (state_after_init paren_options)
       = Inl SyntaxError"
    by (simp add: sanitize_def paren_keys)
  show ?thesis
    using a b paren_keys by (simp add: auth_data_def)
qed

section \<open>The redactor without filter keys\<close>



section \<open>The depth ceiling of the redactor\<close>

lemma height_entries_assign:
  "height_entries (assign acc k v) \<le> max (height_entries acc) (height v)"
  by (induction acc) auto

lemma sanitize_height:
  "height (sanitizeValue pat maxDepth v d) \<le> nat (maxDepth + 1 - int d)"
  "height_items (sanitizeItems pat maxDepth items d') \<le> nat (maxDepth + 1 - int d')"
  "height_entries acc \<le> nat (maxDepth + 1 - int d'') \<Longrightarrow>
     height_entries (sanitizeEntries pat maxDepth es d'' acc) \<le> nat (maxDepth + 1 - int d'')"
proof (induction pat maxDepth v d and pat maxDepth items d' and pat maxDepth es d'' acc
       rule: sanitizeValue_sanitizeItems_sanitizeEntries.induct)
  case (1 filterPattern maxDepth v depth)
  show ?case
  proof (cases "maxDepth < int depth")
    case True
    then show ?thesis by (simp add: sanitizeValue.simps)
  next
    case False
    show ?thesis
    proof (cases v)
      case (JArr items)
      with False "1.IH"(1) [OF False JArr] show ?thesis
        by (simp add: sanitizeValue.simps)
    next
      case (JObj entries)
      with False "1.IH"(2) [OF False JObj] show ?thesis
        by (simp add: sanitizeValue.simps)
    qed (use False in \<open>simp_all add: sanitizeValue.simps\<close>)
  qed
next
  case (2 filterPattern maxDepth d)
  then show ?case by simp
next
  case (3 filterPattern maxDepth item items d)
  then show ?case by simp
next
  case (4 filterPattern maxDepth d result)
  then show ?case by simp
next
  case (5 filterPattern maxDepth key val entries d result)
  let ?v = "if regexp_test filterPattern key then JStr ''[FILTERED]''
            else sanitizeValue filterPattern maxDepth val d"
  have "height ?v \<le> nat (maxDepth + 1 - int d)"
    using "5.IH"(1) by simp
  with "5.prems" have "height_entries (assign result key ?v) \<le> nat (maxDepth + 1 - int d)"
    using height_entries_assign [of result key ?v] by simp
  from "5.IH"(2) [OF this] show ?case by simp
qed

lemma path_keys_append: "path_keys (p @ q) = path_keys p @ path_keys q"
  by (induction p rule: path_keys.induct) simp_all

lemma lookup_path_met:
  assumes "well_formed v" and "lookup_path v p = Some w"
    and "p = [] \<or> int (d + length p) \<le> maxDepth + 1"
    and "\<forall>k \<in> set (path_keys p). \<not> regexp_test pat k"
  shows "lookup_path (sanitizeValue pat maxDepth v d) p
           = Some (sanitizeValue pat maxDepth w (d + length p))"
proof (cases p rule: rev_cases)
  case Nil
  with assms(2) show ?thesis by simp
next
  case (snoc q s)
  from assms(2) snoc obtain u where u: "lookup_path v q = Some u" and w: "lookup_path u [s] = Some w"
    by (auto simp: lookup_path_append split: option.splits)
  from assms(3) snoc have dq: "int (d + length q) \<le> maxDepth" by simp
  from assms(4) snoc have cq: "\<forall>k \<in> set (path_keys q). \<not> regexp_test pat k"
    by (simp add: path_keys_append)
  have wfu: "well_formed u" by (rule well_formed_lookup [OF assms(1) u])
  have q: "lookup_path (sanitizeValue pat maxDepth v d) q
             = Some (sanitizeValue pat maxDepth u (d + length q))"
    by (rule lookup_path_sanitized [OF assms(1) u dq cq])
  have "lookup_path (sanitizeValue pat maxDepth u (d + length q)) [s]
          = Some (sanitizeValue pat maxDepth w (d + length q + 1))"
  proof (cases s)
    case (Key k)
    with w obtain es where es: "u = JObj es" and m: "map_of es k = Some w"
      by (cases u) (auto split: option.splits)
    from wfu es have dist: "distinct (map fst es)" by simp
    from assms(4) snoc Key have nk: "\<not> regexp_test pat k"
      by (simp add: path_keys_append)
    show ?thesis
      unfolding es Key
      by (simp add: sanitizeValue_object [OF dq dist] map_of_redacted m redacted_def nk)
  next
    case (Index i)
    with w obtain items where it: "u = JArr items" and i: "i < length items" and m: "items ! i = w"
      by (cases u) (auto split: if_splits)
    show ?thesis
      unfolding it Index
      by (simp add: sanitizeValue_array [OF dq] i m)
  qed
  with q show ?thesis by (simp add: snoc lookup_path_append)
qed

lemma height_entries_map_of: "map_of es k = Some u \<Longrightarrow> height u \<le> height_entries es"
  by (induction es) (auto simp: le_max_iff_disj split: if_splits)

lemma height_items_nth: "i < length vs \<Longrightarrow> height (vs ! i) \<le> height_items vs"
  by (induction vs arbitrary: i) (auto simp: nth_Cons le_max_iff_disj split: nat.splits)

lemma lookup_path_height:
  "lookup_path v p = Some w \<Longrightarrow> length p + height w \<le> height v"
proof (induction v p rule: lookup_path.induct)
  case (1 v)
  then show ?case by simp
next
  case (2 entries k p)
  from "2.prems" obtain u where u: "map_of entries k = Some u" and w: "lookup_path u p = Some w"
    by (auto split: option.splits)
  have "height u \<le> height_entries entries" by (rule height_entries_map_of [OF u])
  with "2.IH" [OF u w] show ?case by simp
next
  case (3 items i p)
  from "3.prems" have i: "i < length items" and w: "lookup_path (items ! i) p = Some w"
    by (auto split: if_splits)
  have "height (items ! i) \<le> height_items items" by (rule height_items_nth [OF i])
  with "3.IH" [OF i w] show ?case by simp
qed simp_all

text \<open>
  C3, as amended. Take a live configuration whose effective filter keys are plain, so
  that their join compiles to a pattern, and a well-formed value. Then \<open>sanitize\<close>
  returns: its result is what \<open>sanitizeValue\<close> gives with that pattern from depth 0.
  Every part of the value that the traversal meets beyond the depth limit (at a path one
  step longer than the limit allows, none of whose keys the pattern matches, or at the
  root when the limit is negative) is replaced by the marker \<open>[MAX_DEPTH]\<close>; every part
  met within the limit stands in the result at the same path, sanitized at its depth; and
  no path into the result has more than \<open>maxDepth + 1\<close> steps. Within the limit an array
  is mapped element by element and an object entry by entry, each at \<open>depth + 1\<close>;
  beyond the limit every value gives the marker.
\<close>

theorem sanitize_depth_ceiling:
  assumes keys: "getFilterKeys st = Inr keys"
    and plain: "list_all plain keys"
    and wf: "well_formed data"
  shows "\<exists>pat r. new_RegExp (join keys ''|'') True = Inr pat
           \<and> sanitize data arg st = Inr r
           \<and> r = sanitizeValue pat (depth_limit arg) data 0
           \<and> (\<forall>p w. lookup_path data p = Some w
                  \<and> (\<forall>k \<in> set (path_keys p). \<not> regexp_test pat k)
                  \<and> depth_limit arg < int (length p)
                  \<and> (p = [] \<or> int (length p) \<le> depth_limit arg + 1) \<longrightarrow>
                lookup_path r p = Some (JStr ''[MAX_DEPTH]''))
           \<and> (\<forall>p w. lookup_path data p = Some w
                  \<and> (\<forall>k \<in> set (path_keys p). \<not> regexp_test pat k)
                  \<and> int (length p) \<le> depth_limit arg \<longrightarrow>
                lookup_path r p = Some (sanitizeValue pat (depth_limit arg) w (length p)))
           \<and> (\<forall>p w. lookup_path r p = Some w \<longrightarrow> length p \<le> nat (depth_limit arg + 1))
           \<and> (\<forall>d items. int d \<le> depth_limit arg \<longrightarrow>
                 sanitizeValue pat (depth_limit arg) (JArr items) d =
                   JArr (map (\<lambda>v. sanitizeValue pat (depth_limit arg) v (d + 1)) items))
           \<and> (\<forall>d es. int d \<le> depth_limit arg \<and> distinct (map fst es) \<longrightarrow>
                 sanitizeValue pat (depth_limit arg) (JObj es) d =
                   JObj (map (\<lambda>(k, v).
                           (k, if regexp_test pat k then JStr ''[FILTERED]''
                               else sanitizeValue pat (depth_limit arg) v (d + 1))) es))
           \<and> (\<forall>d v. depth_limit arg < int d \<longrightarrow>
                 sanitizeValue pat (depth_limit arg) v d = JStr ''[MAX_DEPTH]'')"
proof -
  let ?pat = "keys_pattern keys"
  let ?md = "depth_limit arg"
  let ?r = "sanitizeValue ?pat ?md data 0"
  have c: "new_RegExp (join keys ''|'') True = Inr ?pat"
    by (rule compile_plain_keys [OF plain])
  have s: "sanitize data arg st = Inr ?r"
    by (rule sanitize_plain_keys [OF keys plain])
  have met: "lookup_path ?r p = Some (sanitizeValue ?pat ?md w (length p))"
    if "lookup_path data p = Some w" and "\<forall>k \<in> set (path_keys p). \<not> regexp_test ?pat k"
      and "p = [] \<or> int (length p) \<le> ?md + 1" for p w
    using lookup_path_met [OF wf that(1) _ that(2), of 0 ?md] that(3) by simp
  have a: "lookup_path ?r p = Some (JStr ''[MAX_DEPTH]'')"
    if "lookup_path data p = Some w \<and> (\<forall>k \<in> set (path_keys p). \<not> regexp_test ?pat k)
          \<and> ?md < int (length p) \<and> (p = [] \<or> int (length p) \<le> ?md + 1)" for p w
    using that met [of p w] by (simp add: sanitizeValue_deep)
  have b: "lookup_path ?r p = Some (sanitizeValue ?pat ?md w (length p))"
    if "lookup_path data p = Some w \<and> (\<forall>k \<in> set (path_keys p). \<not> regexp_test ?pat k)
          \<and> int (length p) \<le> ?md" for p w
    using that met [of p w] by simp
  have h: "length p \<le> nat (?md + 1)" if "lookup_path ?r p = Some w" for p w
    using lookup_path_height [OF that] sanitize_height(1) [of ?pat ?md data 0] by simp
  have d: "sanitizeValue ?pat ?md (JArr items) d =
             JArr (map (\<lambda>v. sanitizeValue ?pat ?md v (d + 1)) items)"
    if "int d \<le> ?md" for d items
    by (rule sanitizeValue_array [OF that])
  have e: "sanitizeValue ?pat ?md v d = JStr ''[MAX_DEPTH]''" if "?md < int d" for d v
    by (rule sanitizeValue_deep [OF that])
  have o: "sanitizeValue ?pat ?md (JObj es) d =
             JObj (map (\<lambda>(k, v).
                     (k, if regexp_test ?pat k then JStr ''[FILTERED]''
                         else sanitizeValue ?pat ?md v (d + 1))) es)"
    if "int d \<le> ?md \<and> distinct (map fst es)" for d es
    using that sanitizeValue_object [of d ?md es ?pat] unfolding redacted_def by blast
  show ?thesis using c s a b h d e o by blast
qed

lemma password_only_keys:
  "getFilterKeys (state_after_init password_only_options) = Inr [''password'']"
  by code_simp

text \<open>
  The value \<open>{value: 'deep'}\<close> wrapped three times, sanitized with the depth limit 1: the
  object at depth 2 is replaced by the marker. The array \<open>[[1], 2]\<close> with the depth limit
  0 keeps its two places, and both elements, met at depth 1, give the marker.
\<close>

theorem sanitize_depth_ceiling_witness:
  "getFilterKeys (state_after_init password_only_options) = Inr [''password'']
   \<and> list_all plain [''password'']
   \<and> well_formed (nested 3 (JObj [(''value'', JStr ''deep'')]))
   \<and> well_formed array_data
   \<and> lookup_path (nested 3 (JObj [(''value'', JStr ''deep'')])) [Key ''nested'', Key ''nested'']
       = Some (JObj [(''nested'', JObj [(''value'', JStr ''deep'')])])
   \<and> sanitize (nested 3 (JObj [(''value'', JStr ''deep'')])) (Some 1)
        (state_after_init password_only_options)
       = Inr (JObj [(''nested'', JObj [(''nested'', JStr ''[MAX_DEPTH]'')])])
   \<and> sanitize array_data (Some 0) (state_after_init password_only_options)
       = Inr (JArr [JStr ''[MAX_DEPTH]'', JStr ''[MAX_DEPTH]''])"
proof -
  let ?st = "state_after_init password_only_options"
  let ?v = "nested 3 (JObj [(''value'', JStr ''deep'')])"
  have pl: "list_all plain [''password'']" by code_simp
  have wf: "well_formed ?v" by (simp add: numeral_3_eq_3)
  have wfa: "well_formed array_data" by (simp add: array_data_def)
  have lp: "lookup_path ?v [Key ''nested'', Key ''nested'']
              = Some (JObj [(''nested'', JObj [(''value'', JStr ''deep'')])])"
    by (simp add: numeral_3_eq_3)
  from sanitize_depth_ceiling [OF password_only_keys pl wf, of "Some 1"]
  obtain pat r where
    c: "new_RegExp (join [''password''] ''|'') True = Inr pat"
    and s: "sanitize ?v (Some 1) ?st = Inr r"
    and r: "r = sanitizeValue pat (depth_limit (Some 1)) ?v 0"
    and o: "\<forall>d es. int d \<le> depth_limit (Some 1) \<and> distinct (map fst es) \<longrightarrow>
                 sanitizeValue pat (depth_limit (Some 1)) (JObj es) d =
                   JObj (map (\<lambda>(k, v).
                           (k, if regexp_test pat k then JStr ''[FILTERED]''
                               else sanitizeValue pat (depth_limit (Some 1)) v (d + 1))) es)"
    and e: "\<forall>d v. depth_limit (Some 1) < int d \<longrightarrow>
                 sanitizeValue pat (depth_limit (Some 1)) v d = JStr ''[MAX_DEPTH]''"
    by blast
  have p: "pat = keys_pattern [''password'']"
    using c compile_plain_keys [OF pl] by simp
  have n: "\<not> regexp_test pat ''nested''"
    unfolding p by (simp add: test_keys_pattern canonicalize_simps)
  have dl: "depth_limit (Some 1) = 1" by (simp add: depth_limit_def)
  have o': "sanitizeValue pat 1 (JObj [(''nested'', w)]) d
              = JObj [(''nested'', sanitizeValue pat 1 w (d + 1))]" if "int d \<le> 1" for d w
    using o [rule_format, of d "[(''nested'', w)]"] that by (simp add: dl n)
  have e': "sanitizeValue pat 1 w (Suc (Suc 0)) = JStr ''[MAX_DEPTH]''" for w
    using e [rule_format, of "Suc (Suc 0)" w] by (simp add: dl)
  have "r = JObj [(''nested'', JObj [(''nested'', JStr ''[MAX_DEPTH]'')])]"
    unfolding r dl by (simp add: numeral_3_eq_3 o' e')
  with s have a: "sanitize ?v (Some 1) ?st
                    = Inr (JObj [(''nested'', JObj [(''nested'', JStr ''[MAX_DEPTH]'')])])"
    by simp
  from sanitize_depth_ceiling [OF password_only_keys pl wfa, of "Some 0"]
  obtain pat' r' where
    s': "sanitize array_data (Some 0) ?st = Inr r'"
    and r': "r' = sanitizeValue pat' (depth_limit (Some 0)) array_data 0"
    and d': "\<forall>d items. int d \<le> depth_limit (Some 0) \<longrightarrow>
                 sanitizeValue pat' (depth_limit (Some 0)) (JArr items) d =
                   JArr (map (\<lambda>v. sanitizeValue pat' (depth_limit (Some 0)) v (d + 1)) items)"
    and e': "\<forall>d v. depth_limit (Some 0) < int d \<longrightarrow>
                 sanitizeValue pat' (depth_limit (Some 0)) v d = JStr ''[MAX_DEPTH]''"
    by blast
  have dl0: "depth_limit (Some 0) = 0" by (simp add: depth_limit_def)
  have m: "sanitizeValue pat' 0 w (Suc 0) = JStr ''[MAX_DEPTH]''" for w
    using e' [rule_format, of "Suc 0" w] by (simp add: dl0)
  have "r' = JArr [JStr ''[MAX_DEPTH]'', JStr ''[MAX_DEPTH]'']"
    unfolding r' dl0 array_data_def
    using d' [rule_format, of 0 "[JArr [JNum 1], JNum 2]"] by (simp add: dl0 m)
  with s' have b: "sanitize array_data (Some 0) ?st
                     = Inr (JArr [JStr ''[MAX_DEPTH]'', JStr ''[MAX_DEPTH]''])"
    by simp
  show ?thesis using password_only_keys pl wf wfa lp a b by blast
qed

text \<open>
  The claim as stated fails: \<open>sanitize\<close> throws before the traversal starts when no
  configuration is live, by the guard of \<open>getConfig\<close>, and when the configuration is live
  but a filter key such as \<open>(\<close> makes the join of the keys no pattern.
\<close>

theorem sanitize_throws_counterexample:
  "sanitize (nested 3 (JObj [(''value'', JStr ''deep'')])) (Some 1) fresh
     = Inl (Error ''Checkend not initialized. Call init() first, typically in instrumentation.ts'')
   \<and> isInitialized (state_after_init paren_options)
   \<and> sanitize (nested 3 (JObj [(''value'', JStr ''deep'')])) (Some 1)
        (state_after_init paren_options)
       = Inl SyntaxError"
proof -
  have a: "sanitize (nested 3 (JObj [(''value'', JStr ''deep'')])) (Some 1) fresh
     = Inl (Error ''Checkend not initialized. Call init() first, typically in instrumentation.ts'')"
    by (simp add: sanitize_def getFilterKeys_def getConfig_def fresh_def)
  have "globalConfig (state_after_init paren_options) = Some (merge_defaults paren_options)"
    by (rule init_live) (simp add: paren_options_def options_with_key_def)
  then have i: "isInitialized (state_after_init paren_options)"
    by (simp add: isInitialized_def)
  have "new_RegExp (join (DEFAULT_FILTER_KEYS @ [''('']) ''|'') True = Inl SyntaxError"
    using parse_unbalanced [OF default_keys_plain, of "[]" 1] by (simp add: new_RegExp_def)
  then have b: "sanitize (nested 3 (JObj [(''value'', JStr ''deep'')])) (Some 1)
        (state_after_init paren_options) = Inl SyntaxError"
    by (simp add: sanitize_def paren_keys)
  show ?thesis using a i b by simp
qed

section \<open>The stack trace parser\<close>






section \<open>The capture harness\<close>

lemma json_clean_strings: "json_clean_items (map JStr ts) = map JStr ts"
  by (induction ts) simp_all

lemma ingest_url: "includes_str (ep @ ''/ingest/v1/errors'') ''/ingest/''"
proof -
  have "ep @ ''/ingest/v1/errors'' = ep @ ''/ingest/'' @ ''v1/errors''" by simp
  then show ?thesis unfolding includes_str_iff by blast
qed

lemma map_of_json_clean_entries:
  "distinct (map fst es) \<Longrightarrow>
     map_of (json_clean_entries es) k =
       (case map_of es k of
          None \<Rightarrow> None
        | Some v \<Rightarrow> if v = JUndefined then None else Some (json_clean v))"
proof (induction es)
  case Nil
  then show ?case by simp
next
  case (Cons e es)
  obtain k' v' where e: "e = (k', v')" by (cases e)
  from Cons.prems e have "map_of es k' = None"
    by (simp add: map_of_eq_None_iff)
  with Cons e show ?case by auto
qed

lemma get_prop_clean:
  "distinct (map fst es) \<Longrightarrow>
     get_prop (json_clean (JObj es)) k =
       (case map_of es k of None \<Rightarrow> JUndefined | Some v \<Rightarrow> json_clean v)"
  by (simp add: map_of_json_clean_entries split: option.splits)

lemma edge_notice_entries:
  "\<exists>es. edge_notice error options config h = JObj es \<and> distinct (map fst es)
      \<and> map_of es ''error_class'' = Some (JStr (err_name error))
      \<and> map_of es ''errorClass'' = None
      \<and> map_of es ''message'' = Some (JStr (err_message error))
      \<and> map_of es ''tags'' = Some (value_at h (option_of options opt_tags))
      \<and> map_of es ''fingerprint'' = Some (string_value (option_of options opt_fingerprint))"
  by (cases "option_of options opt_request") (simp_all add: edge_notice_def)

lemma json_clean_tags: "json_clean (tags_value x) = tags_value x"
  by (cases x) (simp_all add: tags_value_def json_clean_strings)

lemma json_clean_string: "json_clean (string_value x) = string_value x"
  by (cases x) (simp_all add: string_value_def)

lemma captured_of_notice:
  "\<exists>n. notice_of_payload (json_clean (edge_notice error options config h)) t rt = Some n
       \<and> captured_errorClass n = JStr (if err_name error = [] then ''Error'' else err_name error)
       \<and> captured_message n = JStr (err_message error)
       \<and> captured_tags n = json_clean (value_at h (option_of options opt_tags))
       \<and> captured_fingerprint n = string_value (option_of options opt_fingerprint)"
proof -
  obtain es where es: "edge_notice error options config h = JObj es"
    and d: "distinct (map fst es)"
    and m: "map_of es ''error_class'' = Some (JStr (err_name error))"
      "map_of es ''errorClass'' = None"
      "map_of es ''message'' = Some (JStr (err_message error))"
      "map_of es ''tags'' = Some (value_at h (option_of options opt_tags))"
      "map_of es ''fingerprint'' = Some (string_value (option_of options opt_fingerprint))"
    using edge_notice_entries [of error options config h] by blast
  have r: "\<not> read_throws (json_clean (JObj es))" by simp
  have g: "get_prop (json_clean (JObj es)) ''error_class'' = JStr (err_name error)"
    "get_prop (json_clean (JObj es)) ''errorClass'' = JUndefined"
    "get_prop (json_clean (JObj es)) ''message'' = JStr (err_message error)"
    "get_prop (json_clean (JObj es)) ''tags''
       = json_clean (value_at h (option_of options opt_tags))"
    "get_prop (json_clean (JObj es)) ''fingerprint''
       = string_value (option_of options opt_fingerprint)"
    unfolding get_prop_clean [OF d] m by (simp_all add: json_clean_string)
  show ?thesis
    unfolding es notice_of_payload_def g using r by (simp add: js_or_def)
qed

lemma send_notice_captured:
  assumes "global_fetch w = Some MockFetch"
  shows "\<exists>st' n. send_notice config (edge_notice error options config h) e st w
                    = (st', w\<lparr>capturedNotices := capturedNotices w @ [n]\<rparr>)
       \<and> captured_errorClass n = JStr (if err_name error = [] then ''Error'' else err_name error)
       \<and> captured_message n = JStr (err_message error)
       \<and> captured_tags n = json_clean (value_at h (option_of options opt_tags))
       \<and> captured_fingerprint n = string_value (option_of options opt_fingerprint)"
proof -
  let ?url = "str_or (endpoint config) ''https://app.checkend.io'' @ ''/ingest/v1/errors''"
  let ?req = "\<lparr>init_method = ''POST'',
                 init_headers = [(''Content-Type'', ''application/json''),
                                 (''Checkend-Ingestion-Key'', apiKey config)],
                 init_body = Some (JSON_stringify (edge_notice error options config h))\<rparr>"
  obtain n where n: "notice_of_payload (json_clean (edge_notice error options config h)) (now e)
                       (runtime_of e ?url (Some ?req)) = Some n"
    and f: "captured_errorClass n = JStr (if err_name error = [] then ''Error'' else err_name error)"
      "captured_message n = JStr (err_message error)"
      "captured_tags n = json_clean (value_at h (option_of options opt_tags))"
      "captured_fingerprint n = string_value (option_of options opt_fingerprint)"
    using captured_of_notice [of error options config h "now e" "runtime_of e ?url (Some ?req)"]
    by blast
  have m: "mock_fetch e ?url (Some ?req) w =
             (Inr \<lparr>status = 201,
                   response_body = JSON_stringify (JObj [(''id'', JStr (''test-'' @ fresh_id e))])\<rparr>,
              w\<lparr>capturedNotices := capturedNotices w @ [n]\<rparr>)"
    unfolding mock_fetch_def using n ingest_url [of "str_or (endpoint config) ''https://app.checkend.io''"]
    by (simp add: JSON_stringify_def)
  have "\<exists>st'. send_notice config (edge_notice error options config h) e st w
                    = (st', w\<lparr>capturedNotices := capturedNotices w @ [n]\<rparr>)"
    unfolding send_notice_def call_fetch_def Let_def assms m by simp
  with f show ?thesis by blast
qed

text \<open>
  C8, as amended. With a live configuration that has edge capture on, for an error
  that is not ignored, and with the interceptor installed as \<open>fetch\<close> (the harness is
  active): when no \<open>beforeSend\<close> is configured, or the configured callbacks, run on
  the new event object, do not drop it and leave the store \<open>h'\<close>, then \<open>notify\<close>
  returns, leaves that store, and exactly one notice is appended to the captured notices.
  Its message and fingerprint are those of the event, and its class is the event's class
  when that is not empty; for an empty class it is \<open>Error\<close>. Its tags are what the body
  holds for them: the array of tags as it stands in the store \<open>h'\<close>, after the
  callbacks. So when the tags of the event were a list of strings (or absent) and no
  callback has changed that array in place, which is so in particular without
  \<open>beforeSend\<close>, they are reproduced exactly.
\<close>

theorem captured_notice_roundtrip:
  assumes "globalConfig st = Some config"
    and "enableEdge config = Some True"
    and "shouldIgnoreException error st = Inr False"
    and "global_fetch w = Some MockFetch"
    and "beforeSend config = None \<and> h' = h
         \<or> beforeSend config \<noteq> None
           \<and> (\<exists>event h0 ev st' calls.
                 alloc (EventCell (edge_event error options)) h = (event, h0)
               \<and> applyBeforeSend event h0 st = Inr ((Some ev, h'), st', calls))"
  shows "\<exists>st' n. notify error options e st w h
                    = Inr ((st', w\<lparr>capturedNotices := capturedNotices w @ [n]\<rparr>), h')
       \<and> captured_errorClass n
            = JStr (if errorClass (edge_event error options) = [] then ''Error''
                    else errorClass (edge_event error options))
       \<and> captured_message n = JStr (message (edge_event error options))
       \<and> captured_fingerprint n = string_value (fingerprint (edge_event error options))
       \<and> captured_tags n = json_clean (value_at h' (tags (edge_event error options)))
       \<and> (\<forall>ts. value_at h (tags (edge_event error options)) = tags_value ts
               \<and> value_at h' (tags (edge_event error options))
                   = value_at h (tags (edge_event error options)) \<longrightarrow>
             captured_tags n = tags_value ts)"
proof -
  have ev: "errorClass (edge_event error options) = err_name error"
    "message (edge_event error options) = err_message error"
    "tags (edge_event error options) = option_of options opt_tags"
    "fingerprint (edge_event error options) = option_of options opt_fingerprint"
    by (simp_all add: edge_event_def)
  have "\<exists>st0. notify error options e st w h
                 = Inr (send_notice config (edge_notice error options config h') e st0 w, h')"
  proof (cases "beforeSend config = None")
    case True
    with assms(5) have h: "h' = h" by blast
    have "notify error options e st w h
            = Inr (send_notice config (edge_notice error options config h) e st w, h)"
      using assms(1-3) True by (simp add: notify_def isInitialized_def getConfig_def Let_def)
    with h show ?thesis by blast
  next
    case False
    with assms(5) obtain event h0 ev' st1 calls where
      al: "alloc (EventCell (edge_event error options)) h = (event, h0)"
      and a: "applyBeforeSend event h0 st = Inr ((Some ev', h'), st1, calls)" by blast
    from False obtain bs where bs: "beforeSend config = Some bs" by auto
    have "notify error options e st w h
            = Inr (send_notice config (edge_notice error options config h') e st1 w, h')"
      using assms(1-3) al a bs by (simp add: notify_def isInitialized_def getConfig_def Let_def)
    then show ?thesis by blast
  qed
  then obtain st0 where
    n: "notify error options e st w h
          = Inr (send_notice config (edge_notice error options config h') e st0 w, h')" by blast
  from send_notice_captured [OF assms(4), of config error options h' e st0]
  obtain st' n where
    s: "send_notice config (edge_notice error options config h') e st0 w
          = (st', w\<lparr>capturedNotices := capturedNotices w @ [n]\<rparr>)"
    and f: "captured_errorClass n = JStr (if err_name error = [] then ''Error'' else err_name error)"
      "captured_message n = JStr (err_message error)"
      "captured_tags n = json_clean (value_at h' (option_of options opt_tags))"
      "captured_fingerprint n = string_value (option_of options opt_fingerprint)"
    by blast
  from n s have r: "notify error options e st w h
                   = Inr ((st', w\<lparr>capturedNotices := capturedNotices w @ [n]\<rparr>), h')" by simp
  have t: "captured_tags n = tags_value ts"
    if "value_at h (option_of options opt_tags) = tags_value ts
        \<and> value_at h' (option_of options opt_tags) = value_at h (option_of options opt_tags)"
    for ts
    using that f(3) by (simp add: json_clean_tags)
  show ?thesis unfolding ev using r f t by blast
qed

lemma harness_live:
  "globalConfig (state_after_init harness_options) = Some (merge_defaults harness_options)"
  by (rule init_live) (simp add: harness_options_def options_with_key_def)

lemma harness_not_ignored:
  "shouldIgnoreException error (state_after_init harness_options) = Inr False"
  using harness_live
  by (simp add: shouldIgnoreException_def getConfig_def merge_defaults_def harness_options_def
                options_with_key_def)

lemma pushing_live:
  "globalConfig (state_after_init pushing_options) = Some (merge_defaults pushing_options)"
  by (rule init_live) (simp add: pushing_options_def harness_options_def options_with_key_def)

lemma pushing_not_ignored:
  "shouldIgnoreException error (state_after_init pushing_options) = Inr False"
  using pushing_live
  by (simp add: shouldIgnoreException_def getConfig_def merge_defaults_def pushing_options_def
                harness_options_def options_with_key_def)

lemma pushing_chain:
  "applyBeforeSend 1
     (tagged_store @ [EventCell (edge_event error (Some tagged_options))])
     (state_after_init pushing_options)
   = Inr ((Some 1,
           [ValueCell (JArr [JStr ''validation'', JStr ''extra'']),
            EventCell (edge_event error (Some tagged_options))]),
          state_after_init pushing_options,
          [1])"
proof -
  have c: "configured_callbacks (merge_defaults pushing_options) = Some [push_tag ''extra'']"
    by (simp add: configured_callbacks_def merge_defaults_def pushing_options_def)
  have t: "tags (edge_event error (Some tagged_options)) = Some 0"
    by (simp add: edge_event_def option_of_def tagged_options_def)
  have p: "push_tag ''extra'' 1
             (tagged_store @ [EventCell (edge_event error (Some tagged_options))])
           = (Returns (Some 1),
              [ValueCell (JArr [JStr ''validation'', JStr ''extra'']),
               EventCell (edge_event error (Some tagged_options))])"
    by (simp add: push_tag_def event_at_def cell_at_def tagged_store_def t)
  show ?thesis
    unfolding applyBeforeSend_loop [OF pushing_live c] using p by simp
qed

text \<open>
  In the active harness a \<open>ValidationError\<close> with the tags \<open>['validation']\<close> and a
  fingerprint is captured with its class, message, tags and fingerprint when no
  \<open>beforeSend\<close> is configured. With the callback that pushes the tag \<open>extra\<close> in
  place, the notice captured has the class, the message and the fingerprint of the event
  and the tags as the callback left them.
\<close>

theorem captured_notice_roundtrip_witness:
  "globalConfig (state_after_init harness_options) = Some (merge_defaults harness_options)
   \<and> enableEdge (merge_defaults harness_options) = Some True
   \<and> shouldIgnoreException (JsError ''ValidationError'' ''Invalid input'' None)
        (state_after_init harness_options) = Inr False
   \<and> beforeSend (merge_defaults harness_options) = None
   \<and> global_fetch active_world = Some MockFetch
   \<and> value_at tagged_store (Some 0) = tags_value (Some [''validation''])
   \<and> (\<exists>st' n.
         notify (JsError ''ValidationError'' ''Invalid input'' None) (Some tagged_options)
           test_env (state_after_init harness_options) active_world tagged_store
           = Inr ((st', active_world\<lparr>capturedNotices := [n]\<rparr>), tagged_store)
       \<and> captured_errorClass n = JStr ''ValidationError''
       \<and> captured_message n = JStr ''Invalid input''
       \<and> captured_tags n = JArr [JStr ''validation'']
       \<and> captured_fingerprint n = JStr ''fp-1'')
   \<and> globalConfig (state_after_init pushing_options) = Some (merge_defaults pushing_options)
   \<and> enableEdge (merge_defaults pushing_options) = Some True
   \<and> beforeSend (merge_defaults pushing_options) = Some (Single (push_tag ''extra''))
   \<and> (\<exists>st' n h'.
         notify (JsError ''ValidationError'' ''Invalid input'' None) (Some tagged_options)
           test_env (state_after_init pushing_options) active_world tagged_store
           = Inr ((st', active_world\<lparr>capturedNotices := [n]\<rparr>), h')
       \<and> value_at h' (Some 0) = JArr [JStr ''validation'', JStr ''extra'']
       \<and> captured_errorClass n = JStr ''ValidationError''
       \<and> captured_message n = JStr ''Invalid input''
       \<and> captured_tags n = JArr [JStr ''validation'', JStr ''extra'']
       \<and> captured_fingerprint n = JStr ''fp-1'')"
proof -
  let ?err = "JsError ''ValidationError'' ''Invalid input'' None"
  let ?ev = "edge_event ?err (Some tagged_options)"
  let ?h' = "[ValueCell (JArr [JStr ''validation'', JStr ''extra'']), EventCell ?ev]"
  have e: "enableEdge (merge_defaults harness_options) = Some True"
    by (simp add: merge_defaults_def harness_options_def options_with_key_def or_default_def)
  have b: "beforeSend (merge_defaults harness_options) = None"
    by (simp add: merge_defaults_def harness_options_def options_with_key_def)
  have f: "global_fetch active_world = Some MockFetch" by (simp add: active_world_def)
  have c: "capturedNotices active_world = []" by (simp add: active_world_def)
  have v: "value_at tagged_store (Some 0) = tags_value (Some [''validation''])"
    by (simp add: value_at_def cell_at_def tagged_store_def tags_value_def)
  have ev: "errorClass ?ev = ''ValidationError''" "message ?ev = ''Invalid input''"
    "tags ?ev = Some 0" "fingerprint ?ev = Some ''fp-1''"
    by (simp_all add: edge_event_def option_of_def tagged_options_def)
  from captured_notice_roundtrip [OF harness_live e harness_not_ignored f,
         of tagged_store tagged_store ?err "Some tagged_options" test_env] b
  obtain st' n where
    "notify ?err (Some tagged_options) test_env (state_after_init harness_options) active_world
       tagged_store
       = Inr ((st', active_world\<lparr>capturedNotices := capturedNotices active_world @ [n]\<rparr>),
              tagged_store)"
    "captured_errorClass n = JStr (if errorClass ?ev = [] then ''Error'' else errorClass ?ev)"
    "captured_message n = JStr (message ?ev)"
    "captured_fingerprint n = string_value (fingerprint ?ev)"
    "value_at tagged_store (tags ?ev) = tags_value (Some [''validation''])
           \<and> value_at tagged_store (tags ?ev) = value_at tagged_store (tags ?ev) \<longrightarrow>
         captured_tags n = tags_value (Some [''validation''])"
    by blast
  then have "notify ?err (Some tagged_options) test_env (state_after_init harness_options)
               active_world tagged_store
               = Inr ((st', active_world\<lparr>capturedNotices := [n]\<rparr>), tagged_store)
       \<and> captured_errorClass n = JStr ''ValidationError''
       \<and> captured_message n = JStr ''Invalid input''
       \<and> captured_tags n = JArr [JStr ''validation'']
       \<and> captured_fingerprint n = JStr ''fp-1''"
    using v by (simp add: c ev tags_value_def string_value_def)
  then have first: "\<exists>st' n.
         notify ?err (Some tagged_options) test_env (state_after_init harness_options)
           active_world tagged_store
           = Inr ((st', active_world\<lparr>capturedNotices := [n]\<rparr>), tagged_store)
       \<and> captured_errorClass n = JStr ''ValidationError''
       \<and> captured_message n = JStr ''Invalid input''
       \<and> captured_tags n = JArr [JStr ''validation'']
       \<and> captured_fingerprint n = JStr ''fp-1''"
    by blast
  have e': "enableEdge (merge_defaults pushing_options) = Some True"
    by (simp add: merge_defaults_def pushing_options_def harness_options_def options_with_key_def
                  or_default_def)
  have b': "beforeSend (merge_defaults pushing_options) = Some (Single (push_tag ''extra''))"
    by (simp add: merge_defaults_def pushing_options_def)
  have al: "alloc (EventCell ?ev) tagged_store = (1, tagged_store @ [EventCell ?ev])"
    by (simp add: alloc_def tagged_store_def)
  have h5: "beforeSend (merge_defaults pushing_options) = None \<and> ?h' = tagged_store
         \<or> beforeSend (merge_defaults pushing_options) \<noteq> None
           \<and> (\<exists>event h0 ev st' calls.
                 alloc (EventCell ?ev) tagged_store = (event, h0)
               \<and> applyBeforeSend event h0 (state_after_init pushing_options)
                   = Inr ((Some ev, ?h'), st', calls))"
    using b' al pushing_chain [of ?err] by blast
  have v': "value_at ?h' (Some 0) = JArr [JStr ''validation'', JStr ''extra'']"
    by (simp add: value_at_def cell_at_def)
  from captured_notice_roundtrip [OF pushing_live e' pushing_not_ignored f h5, of test_env]
  obtain st2 n2 where
    "notify ?err (Some tagged_options) test_env (state_after_init pushing_options) active_world
       tagged_store
       = Inr ((st2, active_world\<lparr>capturedNotices := capturedNotices active_world @ [n2]\<rparr>), ?h')"
    "captured_errorClass n2 = JStr (if errorClass ?ev = [] then ''Error'' else errorClass ?ev)"
    "captured_message n2 = JStr (message ?ev)"
    "captured_fingerprint n2 = string_value (fingerprint ?ev)"
    "captured_tags n2 = json_clean (value_at ?h' (tags ?ev))"
    by blast
  then have "notify ?err (Some tagged_options) test_env (state_after_init pushing_options)
               active_world tagged_store
               = Inr ((st2, active_world\<lparr>capturedNotices := [n2]\<rparr>), ?h')
       \<and> value_at ?h' (Some 0) = JArr [JStr ''validation'', JStr ''extra'']
       \<and> captured_errorClass n2 = JStr ''ValidationError''
       \<and> captured_message n2 = JStr ''Invalid input''
       \<and> captured_tags n2 = JArr [JStr ''validation'', JStr ''extra'']
       \<and> captured_fingerprint n2 = JStr ''fp-1''"
    using v' by (simp add: c ev string_value_def)
  then have second: "\<exists>st' n h'.
         notify ?err (Some tagged_options) test_env (state_after_init pushing_options)
           active_world tagged_store
           = Inr ((st', active_world\<lparr>capturedNotices := [n]\<rparr>), h')
       \<and> value_at h' (Some 0) = JArr [JStr ''validation'', JStr ''extra'']
       \<and> captured_errorClass n = JStr ''ValidationError''
       \<and> captured_message n = JStr ''Invalid input''
       \<and> captured_tags n = JArr [JStr ''validation'', JStr ''extra'']
       \<and> captured_fingerprint n = JStr ''fp-1''"
    by blast
  show ?thesis
    using harness_live e harness_not_ignored [of ?err] b f v first pushing_live e' b' second
    by blast
qed

text \<open>
  The claim as stated fails in two ways. For an event whose class is the empty string
  the interceptor reads \<open>payload.error_class || payload.errorClass || 'Error'\<close>, so the
  captured class is \<open>Error\<close>. And the body is written from the notice after the
  callbacks have run, and the notice holds the caller's array of tags itself: for the
  tags \<open>['validation']\<close> and the callback that pushes \<open>extra\<close> in place, the captured
  tags are \<open>['validation', 'extra']\<close>.
\<close>

theorem captured_notice_empty_class_counterexample:
  "errorClass (edge_event (JsError [] ''boom'' None) None) = []
   \<and> captured_classes
        (notify (JsError [] ''boom'' None) None test_env (state_after_init harness_options)
           active_world [])
       = [JStr ''Error'']
   \<and> value_at tagged_store
        (tags (edge_event (JsError ''ValidationError'' ''Invalid input'' None)
                 (Some tagged_options)))
       = JArr [JStr ''validation'']
   \<and> captured_tag_lists
        (notify (JsError ''ValidationError'' ''Invalid input'' None) (Some tagged_options)
           test_env (state_after_init pushing_options) active_world tagged_store)
       = [JArr [JStr ''validation'', JStr ''extra'']]"
proof -
  let ?err = "JsError [] ''boom'' None"
  let ?verr = "JsError ''ValidationError'' ''Invalid input'' None"
  let ?ev = "edge_event ?verr (Some tagged_options)"
  let ?h' = "[ValueCell (JArr [JStr ''validation'', JStr ''extra'']), EventCell ?ev]"
  have e: "enableEdge (merge_defaults harness_options) = Some True"
    by (simp add: merge_defaults_def harness_options_def options_with_key_def or_default_def)
  have b: "beforeSend (merge_defaults harness_options) = None"
    by (simp add: merge_defaults_def harness_options_def options_with_key_def)
  have f: "global_fetch active_world = Some MockFetch" by (simp add: active_world_def)
  have c: "capturedNotices active_world = []" by (simp add: active_world_def)
  have n: "notify ?err None test_env (state_after_init harness_options) active_world []
             = Inr (send_notice (merge_defaults harness_options)
                      (edge_notice ?err None (merge_defaults harness_options) []) test_env
                      (state_after_init harness_options) active_world, [])"
    using harness_live e harness_not_ignored [of ?err] b
    by (simp add: notify_def isInitialized_def getConfig_def Let_def)
  from send_notice_captured [OF f, of "merge_defaults harness_options" ?err None "[]" test_env
         "state_after_init harness_options"]
  obtain st' n where
    "send_notice (merge_defaults harness_options)
       (edge_notice ?err None (merge_defaults harness_options) []) test_env
       (state_after_init harness_options) active_world
       = (st', active_world\<lparr>capturedNotices := capturedNotices active_world @ [n]\<rparr>)"
    "captured_errorClass n = JStr (if err_name ?err = [] then ''Error'' else err_name ?err)"
    by blast
  with n c have first: "captured_classes
        (notify ?err None test_env (state_after_init harness_options) active_world [])
       = [JStr ''Error'']"
    by (simp add: captured_classes_def)
  have t: "tags ?ev = Some 0"
    by (simp add: edge_event_def option_of_def tagged_options_def)
  have v: "value_at tagged_store (tags ?ev) = JArr [JStr ''validation'']"
    by (simp add: t value_at_def cell_at_def tagged_store_def)
  have e': "enableEdge (merge_defaults pushing_options) = Some True"
    by (simp add: merge_defaults_def pushing_options_def harness_options_def options_with_key_def
                  or_default_def)
  have b': "beforeSend (merge_defaults pushing_options) = Some (Single (push_tag ''extra''))"
    by (simp add: merge_defaults_def pushing_options_def)
  have al: "alloc (EventCell ?ev) tagged_store = (1, tagged_store @ [EventCell ?ev])"
    by (simp add: alloc_def tagged_store_def)
  have n': "notify ?verr (Some tagged_options) test_env (state_after_init pushing_options)
              active_world tagged_store
             = Inr (send_notice (merge_defaults pushing_options)
                      (edge_notice ?verr (Some tagged_options) (merge_defaults pushing_options) ?h')
                      test_env (state_after_init pushing_options) active_world, ?h')"
    using pushing_live e' pushing_not_ignored [of ?verr] b' al pushing_chain [of ?verr]
    by (simp add: notify_def isInitialized_def getConfig_def Let_def)
  from send_notice_captured [OF f, of "merge_defaults pushing_options" ?verr
         "Some tagged_options" ?h' test_env "state_after_init pushing_options"]
  obtain st2 n2 where
    "send_notice (merge_defaults pushing_options)
       (edge_notice ?verr (Some tagged_options) (merge_defaults pushing_options) ?h') test_env
       (state_after_init pushing_options) active_world
       = (st2, active_world\<lparr>capturedNotices := capturedNotices active_world @ [n2]\<rparr>)"
    "captured_tags n2 = json_clean (value_at ?h' (option_of (Some tagged_options) opt_tags))"
    by blast
  with n' c have second: "captured_tag_lists
        (notify ?verr (Some tagged_options) test_env (state_after_init pushing_options)
           active_world tagged_store)
       = [JArr [JStr ''validation'', JStr ''extra'']]"
    by (simp add: captured_tag_lists_def option_of_def tagged_options_def value_at_def
                  cell_at_def)
  show ?thesis using first v second by (simp add: edge_event_def)
qed

end
